theory Spec2Isabelle
  imports Main "HOL-Library.Word"
begin

section \<open>The forwarder bot of \<open>src/server.js\<close>\<close>

text \<open>
  The program is a Telegram bot with one session object per chat, a handful of command
  handlers, a handler for free text that walks the session through its steps, and a loop
  that copies a range of messages. Every handler is an \<open>async\<close> function: it runs up to
  its next \<open>await\<close>, is suspended there, and other handlers run in between. The model
  follows that: a handler is cut at its \<open>await\<close>s into segments, a suspended handler is a
  continuation, and the session objects live in a store of addresses, because the handlers
  keep references to session objects that \<open>resetSession\<close> replaces in the map.
\<close>

subsection \<open>Text\<close>

text \<open>
  A JavaScript string is a sequence of 16-bit code units. \<open>js\<close> writes an ASCII literal
  as one.
\<close>

type_synonym cu = "16 word"
type_synonym jsstring = "cu list"

definition js :: "string \<Rightarrow> jsstring" where
  "js s = map of_char s"

text \<open>The classes \<open>\d\<close>, \<open>\w\<close> and \<open>\s\<close> of a regular expression without the \<open>u\<close> flag.\<close>

definition is_digit :: "cu \<Rightarrow> bool" where
  "is_digit c = (48 \<le> unat c \<and> unat c \<le> 57)"

definition is_word :: "cu \<Rightarrow> bool" where
  "is_word c =
     ((65 \<le> unat c \<and> unat c \<le> 90) \<or> (97 \<le> unat c \<and> unat c \<le> 122)
      \<or> (48 \<le> unat c \<and> unat c \<le> 57) \<or> unat c = 95)"

text \<open>
  White space and line terminators of ECMAScript: what \<open>String.prototype.trim\<close> removes
  and what \<open>\s\<close> matches (tab, line feed, vertical tab, form feed, carriage return, space,
  U+00A0, U+1680, U+2000 to U+200A, U+2028, U+2029, U+202F, U+205F, U+3000, U+FEFF).
\<close>

definition is_space :: "cu \<Rightarrow> bool" where
  "is_space c =
     ((9 \<le> unat c \<and> unat c \<le> 13) \<or> unat c = 32 \<or> unat c = 160 \<or> unat c = 5760
      \<or> (8192 \<le> unat c \<and> unat c \<le> 8202) \<or> unat c = 8232 \<or> unat c = 8233
      \<or> unat c = 8239 \<or> unat c = 8287 \<or> unat c = 12288 \<or> unat c = 65279)"

definition trim :: "jsstring \<Rightarrow> jsstring" where
  "trim s = rev (dropWhile is_space (rev (dropWhile is_space s)))"

abbreviation minus_sign :: cu where "minus_sign \<equiv> 45"
abbreviation at_sign :: cu where "at_sign \<equiv> 64"
abbreviation slash :: cu where "slash \<equiv> 47"

subsection \<open>Numbers\<close>

text \<open>
  A JavaScript number is an IEEE-754 double. The only numbers this program makes are
  \<open>Number(s)\<close> of a string of decimal digits with an optional minus sign, and \<open>mid++\<close> on
  such a number: integers that a double represents, and the two infinities (a digit string
  never gives NaN; \<open>-0\<close> is read as \<open>0\<close>, which \<open>===\<close>, \<open><=\<close>, \<open>!\<close> and \<open>String\<close> do
  not tell apart).
\<close>

datatype jsnum = Finite int | PosInfinity | NegInfinity

text \<open>
  Rounding a magnitude to the nearest double, ties to the even significand: the
  number keeps its 53 leading bits. \<open>excess_bits a\<close> is how many bits \<open>a\<close> has beyond 53.
\<close>

function excess_bits :: "int \<Rightarrow> nat" where
  "excess_bits a = (if a < 9007199254740992 then 0 else Suc (excess_bits (a div 2)))"
  by pat_completeness auto
termination
  by (relation "measure nat") auto

declare excess_bits.simps [simp del]

definition round_magnitude :: "int \<Rightarrow> int" where
  "round_magnitude a =
     (let e = excess_bits a; q = a div 2 ^ e; r = a mod 2 ^ e
      in (if 2 ^ e < 2 * r \<or> (2 * r = 2 ^ e \<and> odd q) then q + 1 else q) * 2 ^ e)"

definition to_double :: "int \<Rightarrow> jsnum" where
  "to_double n =
     (let v = round_magnitude \<bar>n\<bar>
      in if 2 ^ 1024 \<le> v then (if n < 0 then NegInfinity else PosInfinity)
         else Finite (if n < 0 then - v else v))"

text \<open>The value of a decimal literal \<open>-?\d+\<close>, and \<open>Number\<close> of it.\<close>

definition digit_value :: "cu \<Rightarrow> int" where
  "digit_value c = int (unat c) - 48"

definition digits_value :: "jsstring \<Rightarrow> int" where
  "digits_value ds = foldl (\<lambda>acc c. 10 * acc + digit_value c) 0 ds"

definition literal_value :: "jsstring \<Rightarrow> int" where
  "literal_value raw =
     (case raw of [] \<Rightarrow> 0
      | c # cs \<Rightarrow> if c = minus_sign then - digits_value cs else digits_value raw)"

definition Number :: "jsstring \<Rightarrow> jsnum" where
  "Number raw = to_double (literal_value raw)"

text \<open>\<open>Number.isInteger\<close>, \<open><=\<close>, \<open><\<close> and \<open>++\<close> on these numbers.\<close>

fun isInteger :: "jsnum \<Rightarrow> bool" where
  "isInteger (Finite n) = True"
| "isInteger PosInfinity = False"
| "isInteger NegInfinity = False"

fun num_le :: "jsnum \<Rightarrow> jsnum \<Rightarrow> bool" where
  "num_le (Finite a) (Finite b) = (a \<le> b)"
| "num_le NegInfinity y = True"
| "num_le x PosInfinity = True"
| "num_le PosInfinity y = False"
| "num_le x NegInfinity = False"

definition num_less :: "jsnum \<Rightarrow> jsnum \<Rightarrow> bool" where
  "num_less x y = (num_le x y \<and> x \<noteq> y)"

fun incr :: "jsnum \<Rightarrow> jsnum" where
  "incr (Finite n) = to_double (n + 1)"
| "incr PosInfinity = PosInfinity"
| "incr NegInfinity = NegInfinity"

subsection \<open>\<open>normalizeChatRef\<close>\<close>

text \<open>
  A chat reference is a number (a chat id) or a string \<open>"@username"\<close>. A variable or
  field for one may also be \<open>null\<close> or \<open>undefined\<close>; \<open>normalizeChatRef\<close> returns
  \<open>null\<close> for a text that is neither.
\<close>

datatype ref = RNum jsnum | RName jsstring

datatype 'a slot = Undefined | Null | Val 'a

text \<open>The test \<open>/^-?\d+$/.test(raw)\<close>: an optional minus sign, then digits to the end.\<close>

definition test_numeric :: "jsstring \<Rightarrow> bool" where
  "test_numeric raw =
     (let ds = (case raw of [] \<Rightarrow> [] | c # cs \<Rightarrow> if c = minus_sign then cs else raw)
      in ds \<noteq> [] \<and> list_all is_digit ds)"

text \<open>The test \<open>/^[A-Za-z0-9_]{5,}$/.test(uname)\<close>.\<close>

definition test_username :: "jsstring \<Rightarrow> bool" where
  "test_username uname = (5 \<le> length uname \<and> list_all is_word uname)"

definition strip_at :: "jsstring \<Rightarrow> jsstring" where
  "strip_at raw = (case raw of [] \<Rightarrow> [] | c # cs \<Rightarrow> if c = at_sign then cs else raw)"

definition normalizeChatRef :: "jsstring \<Rightarrow> ref slot" where
  "normalizeChatRef input =
     (let raw = trim input
      in if raw = [] then Null
         else if test_numeric raw then Val (RNum (Number raw))
         else let uname = strip_at raw
              in if \<not> test_username uname then Null
                 else Val (RName (at_sign # uname)))"

subsection \<open>Sessions\<close>

text \<open>
  A session is the object \<open>{ step, running, startId, endId, srcRef, dstRef }\<close>. A fresh one
  is \<open>{ step: null, running: false }\<close>: its other fields are \<open>undefined\<close>. \<open>/forward\<close>
  sets both references to \<open>null\<close>.
\<close>

datatype stepv = TEST_USERNAME | SRC | DST

record session =
  step :: "stepv option"
  running :: bool
  startId :: "jsnum option"
  endId :: "jsnum option"
  srcRef :: "ref slot"
  dstRef :: "ref slot"

definition fresh_session :: session where
  "fresh_session =
     \<lparr>step = None, running = False, startId = None, endId = None,
      srcRef = Undefined, dstRef = Undefined\<rparr>"

text \<open>
  \<open>sessions\<close> is a \<open>Map\<close> from chat ids to session objects. The objects are in a store:
  a handler that holds \<open>s\<close> holds an address, and keeps it when \<open>resetSession\<close> puts a
  new object into the map.
\<close>

type_synonym chat = int
type_synonym addr = nat

record world =
  heap :: "addr \<Rightarrow> session"
  next_addr :: addr
  sessions :: "chat \<rightharpoonup> addr"

definition new_session :: "world \<Rightarrow> chat \<Rightarrow> world \<times> addr" where
  "new_session w chatId =
     (w\<lparr>heap := (heap w)(next_addr w := fresh_session),
        next_addr := Suc (next_addr w),
        sessions := (sessions w)(chatId \<mapsto> next_addr w)\<rparr>, next_addr w)"

definition getSession :: "world \<Rightarrow> chat \<Rightarrow> world \<times> addr" where
  "getSession w chatId =
     (case sessions w chatId of Some a \<Rightarrow> (w, a) | None \<Rightarrow> new_session w chatId)"

definition resetSession :: "world \<Rightarrow> chat \<Rightarrow> world" where
  "resetSession w chatId = fst (new_session w chatId)"

definition update :: "world \<Rightarrow> addr \<Rightarrow> (session \<Rightarrow> session) \<Rightarrow> world" where
  "update w a f = w\<lparr>heap := (heap w)(a := f (heap w a))\<rparr>"

text \<open>The session of a chat as \<open>getSession\<close> would give it.\<close>

definition session_of :: "world \<Rightarrow> chat \<Rightarrow> session" where
  "session_of w chatId =
     (case sessions w chatId of Some a \<Rightarrow> heap w a | None \<Rightarrow> fresh_session)"

subsection \<open>What a handler does to the outside\<close>

text \<open>
  An error that \<open>bot.getChat\<close>, \<open>bot.copyMessage\<close> or \<open>bot.sendMessage\<close> rejects with:
  its message, \<open>e.response.statusCode\<close>, \<open>e.response.status\<close>, and the two places of a
  retry hint, \<open>e.response.body.parameters.retry_after\<close> and
  \<open>e.response.data.parameters.retry_after\<close> (\<open>None\<close>: absent or \<open>null\<close>). Status and hint
  are the integers of the Bot API.
\<close>

record jserror =
  err_message :: jsstring
  statusCode :: "int option"
  status :: "int option"
  body_retry_after :: "int option"
  data_retry_after :: "int option"

text \<open>The texts the bot sends, by the values they are built from.\<close>

datatype reply =
    M_ready
  | M_cancelled
  | M_chat_id chat
  | M_test_prompt
  | M_already_running
  | M_must_be_integers
  | M_range_set jsnum jsnum
  | M_send_a_username
  | M_resolved "ref slot" jsnum
  | M_could_not_resolve "ref slot" jserror
  | M_invalid_input
  | M_source_received
  | M_could_not_resolve_source "ref slot" jserror
  | M_could_not_resolve_target "ref slot" jserror
  | M_starting jsnum jsnum "jsnum option" "jsnum option"
  | M_done jsnum jsnum

text \<open>
  \<open>sleep(BASE_DELAY * 1000)\<close>, \<open>sleep(FAIL_DELAY * 1000)\<close> (0.9 and 1.7 seconds unless the
  environment sets them) and \<open>sleep(waitSec * 1000)\<close>.
\<close>

datatype delay = BASE_DELAY | FAIL_DELAY | Seconds int

datatype log_line =
    Flood_control jsnum int
  | Retry_failed jsnum jserror
  | Fail jsnum jserror

text \<open>\<open>CopyMessage dstId srcId mid\<close> is the call \<open>bot.copyMessage(dstId, srcId, mid)\<close>.\<close>

datatype event =
    SendMessage chat reply
  | GetChat "ref slot"
  | CopyMessage jsnum jsnum jsnum
  | Sleep delay
  | Log log_line

text \<open>How an awaited promise settles; only \<open>getChat\<close>'s value, the chat id, is read.\<close>

datatype response = Resolved jsnum | Rejected jserror

text \<open>The variables of the forward loop.\<close>

record locals =
  l_chatId :: chat
  l_s :: addr
  l_srcId :: jsnum
  l_dstId :: jsnum
  l_mid :: jsnum
  l_ok :: jsnum
  l_fail :: jsnum

text \<open>
  A suspended handler, by the \<open>await\<close> it stands at:
  \<^item> \<open>K_return\<close>: a \<open>sendMessage\<close> with nothing after it but the return;
  \<^item> \<open>K_test\<close>: the \<open>sendMessage\<close> of \<open>/test\<close>;
  \<^item> \<open>K_test_resolve\<close>, \<open>K_test_sent\<close>, \<open>K_test_failed\<close>: in the test flow, the
    \<open>resolveChatId\<close>, the \<open>sendMessage\<close> in the \<open>try\<close>, the one in the \<open>catch\<close>;
  \<^item> \<open>K_source\<close>, \<open>K_target\<close>: \<open>resolveChatId(bot, s.srcRef)\<close> and
    \<open>resolveChatId(bot, s.dstRef)\<close>;
  \<^item> the last argument of \<open>K_test_resolve\<close>, \<open>K_source\<close> and \<open>K_target\<close> is the chat
    id when the reference was a number and no \<open>getChat\<close> was called;
  \<^item> \<open>K_starting\<close>: the \<open>sendMessage\<close> before the loop (chat, \<open>s\<close>, \<open>srcId\<close>, \<open>dstId\<close>);
  \<^item> \<open>K_copy\<close>, \<open>K_flood\<close>, \<open>K_retry\<close>, \<open>K_pace\<close>: in the loop, the first \<open>copyMessage\<close>,
    the \<open>sleep(waitSec * 1000)\<close>, the second \<open>copyMessage\<close>, and the \<open>sleep\<close> that ends
    the iteration;
  \<^item> \<open>K_done\<close>: the \<open>sendMessage\<close> after the loop.
\<close>

datatype cont =
    K_return
  | K_test chat
  | K_test_resolve chat "ref slot" "jsnum option"
  | K_test_sent chat "ref slot"
  | K_test_failed chat
  | K_source chat addr "jsnum option"
  | K_target chat addr jsnum "jsnum option"
  | K_starting chat addr jsnum jsnum
  | K_copy locals
  | K_flood locals
  | K_retry locals
  | K_pace locals
  | K_done chat

type_synonym segment = "world \<times> event list \<times> cont option"

subsection \<open>The patterns of the commands\<close>

text \<open>
  The patterns read the text from left to right, and each repetition takes all it can:
  in \<open>(?:@\w+)?\s+\<close>, \<open>-?\d+\s+\<close> and \<open>\d+\s*$\<close> what follows a repetition cannot
  start with what the repetition takes, so giving characters back never helps a match.
\<close>

fun after_prefix :: "'a list \<Rightarrow> 'a list \<Rightarrow> 'a list option" where
  "after_prefix [] ys = Some ys"
| "after_prefix (x # xs) [] = None"
| "after_prefix (x # xs) (y # ys) = (if x = y then after_prefix xs ys else None)"

text \<open>\<open>(?:@\w+)?\<close> at the head of \<open>r\<close>: what is left of \<open>r\<close>.\<close>

definition mention :: "jsstring \<Rightarrow> jsstring" where
  "mention r =
     (case r of [] \<Rightarrow> []
      | c # cs \<Rightarrow>
          if c = at_sign \<and> takeWhile is_word cs \<noteq> [] then dropWhile is_word cs else r)"

text \<open>\<open>/^\/NAME(?:@\w+)?$/\<close>, the pattern of \<open>/start\<close>, \<open>/cancel\<close>, \<open>/chatid\<close> and \<open>/test\<close>.\<close>

definition cmd_match :: "string \<Rightarrow> jsstring \<Rightarrow> bool" where
  "cmd_match name text =
     (case after_prefix (slash # js name) text of None \<Rightarrow> False
      | Some r \<Rightarrow> mention r = [])"

text \<open>\<open>\s+\<close> at the head of \<open>r\<close>.\<close>

definition spaces1 :: "jsstring \<Rightarrow> jsstring option" where
  "spaces1 r = (if takeWhile is_space r = [] then None else Some (dropWhile is_space r))"

text \<open>The group \<open>(-?\d+)\<close> at the head of \<open>r\<close>: the group and what is left.\<close>

definition int_group :: "jsstring \<Rightarrow> (jsstring \<times> jsstring) option" where
  "int_group r =
     (let (sign, r1) =
            (case r of [] \<Rightarrow> ([], [])
             | c # cs \<Rightarrow> if c = minus_sign then ([c], cs) else ([], r))
      in if takeWhile is_digit r1 = [] then None
         else Some (sign @ takeWhile is_digit r1, dropWhile is_digit r1))"

text \<open>
  \<open>/^\/forward(?:@\w+)?\s+(-?\d+)\s+(-?\d+)\s*$/\<close>: the two groups \<open>match[1]\<close> and
  \<open>match[2]\<close>, or \<open>None\<close> when the text does not match and the handler is not called.
\<close>

definition match_forward :: "jsstring \<Rightarrow> (jsstring \<times> jsstring) option" where
  "match_forward text =
     (case after_prefix (js ''/forward'') text of None \<Rightarrow> None
      | Some r0 \<Rightarrow>
     (case spaces1 (mention r0) of None \<Rightarrow> None
      | Some r1 \<Rightarrow>
     (case int_group r1 of None \<Rightarrow> None
      | Some (g1, r2) \<Rightarrow>
     (case spaces1 r2 of None \<Rightarrow> None
      | Some r3 \<Rightarrow>
     (case int_group r3 of None \<Rightarrow> None
      | Some (g2, r4) \<Rightarrow> if list_all is_space r4 then Some (g1, g2) else None)))))"

subsection \<open>The command handlers\<close>

text \<open>
  The first segment of each handler, from the arrival of a message with chat id \<open>chatId\<close>
  and text \<open>text\<close> to the handler's first \<open>await\<close> or its return: the new store, the calls
  it made, and where it is suspended. A handler whose pattern does not match is not
  called.
\<close>

definition idle :: "world \<Rightarrow> segment" where
  "idle w = (w, [], None)"

definition on_start :: "world \<Rightarrow> chat \<Rightarrow> jsstring \<Rightarrow> segment" where
  "on_start w chatId text =
     (if cmd_match ''start'' text then (w, [SendMessage chatId M_ready], Some K_return)
      else idle w)"

definition on_cancel :: "world \<Rightarrow> chat \<Rightarrow> jsstring \<Rightarrow> segment" where
  "on_cancel w chatId text =
     (if cmd_match ''cancel'' text
      then (resetSession w chatId, [SendMessage chatId M_cancelled], Some K_return)
      else idle w)"

definition on_chatid :: "world \<Rightarrow> chat \<Rightarrow> jsstring \<Rightarrow> segment" where
  "on_chatid w chatId text =
     (if cmd_match ''chatid'' text
      then (w, [SendMessage chatId (M_chat_id chatId)], Some K_return)
      else idle w)"

definition on_test :: "world \<Rightarrow> chat \<Rightarrow> jsstring \<Rightarrow> segment" where
  "on_test w chatId text =
     (if cmd_match ''test'' text
      then (w, [SendMessage chatId M_test_prompt], Some (K_test chatId))
      else idle w)"

definition on_forward :: "world \<Rightarrow> chat \<Rightarrow> jsstring \<Rightarrow> segment" where
  "on_forward w chatId text =
     (case match_forward text of None \<Rightarrow> idle w
      | Some (g1, g2) \<Rightarrow>
          let (w1, s) = getSession w chatId
          in if running (heap w1 s)
             then (w1, [SendMessage chatId M_already_running], Some K_return)
             else
               let startId0 = Number g1; endId0 = Number g2
               in if \<not> isInteger startId0 \<or> \<not> isInteger endId0
                  then (w1, [SendMessage chatId M_must_be_integers], Some K_return)
                  else
                    let (startId1, endId1) =
                          (if num_less endId0 startId0 then (endId0, startId0)
                           else (startId0, endId0))
                    in (update w1 s (\<lambda>x. x\<lparr>startId := Some startId1, endId := Some endId1,
                                              srcRef := Null, dstRef := Null, step := Some SRC\<rparr>),
                        [SendMessage chatId (M_range_set startId1 endId1)], Some K_return))"

subsection \<open>The step handler\<close>

text \<open>\<open>!ref\<close> and \<open>typeof ref === "number"\<close>.\<close>

fun falsy :: "ref slot \<Rightarrow> bool" where
  "falsy Undefined = True"
| "falsy Null = True"
| "falsy (Val (RNum n)) = (n = Finite 0)"
| "falsy (Val (RName u)) = (u = [])"

fun is_number :: "ref slot \<Rightarrow> bool" where
  "is_number (Val (RNum n)) = True"
| "is_number r = False"

text \<open>
  The call \<open>resolveChatId(bot, ref)\<close>: a number is returned as it is, anything else goes
  to \<open>bot.getChat\<close>. The result is the call made and, for a number, the value;
  \<open>settled\<close> is how its promise settles, given how the \<open>getChat\<close> did.
\<close>

fun resolveChatId :: "ref slot \<Rightarrow> event list \<times> jsnum option" where
  "resolveChatId (Val (RNum n)) = ([], Some n)"
| "resolveChatId r = ([GetChat r], None)"

fun settled :: "jsnum option \<Rightarrow> response \<Rightarrow> response" where
  "settled (Some n) r = Resolved n"
| "settled None r = r"

definition on_message :: "world \<Rightarrow> chat \<Rightarrow> jsstring \<Rightarrow> segment" where
  "on_message w chatId msg_text =
     (let text = trim msg_text
      in if text = [] then idle w
         else if hd text = slash then idle w
         else
           (case sessions w chatId of None \<Rightarrow> idle w
            | Some s \<Rightarrow>
           (case step (heap w s) of None \<Rightarrow> idle w
            | Some TEST_USERNAME \<Rightarrow>
                let ref = normalizeChatRef text
                in if falsy ref \<or> is_number ref
                   then (w, [SendMessage chatId M_send_a_username], Some K_return)
                   else let (calls, now) = resolveChatId ref
                        in (w, calls, Some (K_test_resolve chatId ref now))
            | Some SRC \<Rightarrow>
                let ref = normalizeChatRef text
                in if falsy ref
                   then (w, [SendMessage chatId M_invalid_input], Some K_return)
                   else (update w s (\<lambda>x. x\<lparr>srcRef := ref, step := Some DST\<rparr>),
                         [SendMessage chatId M_source_received], Some K_return)
            | Some DST \<Rightarrow>
                let ref = normalizeChatRef text
                in if falsy ref
                   then (w, [SendMessage chatId M_invalid_input], Some K_return)
                   else
                     let w1 = update w s (\<lambda>x. x\<lparr>dstRef := ref, step := None\<rparr>);
                         (calls, now) = resolveChatId (srcRef (heap w1 s))
                     in (w1, calls, Some (K_source chatId s now)))))"

subsection \<open>Resuming a handler\<close>

text \<open>
  \<open>status === 429 && retryAfter != null\<close>, with
  \<open>status = e?.response?.statusCode || e?.response?.status\<close> and \<open>retryAfter\<close> the first of
  the two hints that is there: \<open>flood_wait e\<close> is \<open>waitSec = Number(retryAfter) + 1\<close> when
  the test holds.
\<close>

definition error_status :: "jserror \<Rightarrow> int option" where
  "error_status e =
     (case statusCode e of None \<Rightarrow> status e
      | Some c \<Rightarrow> if c = 0 then status e else Some c)"

definition retryAfter :: "jserror \<Rightarrow> int option" where
  "retryAfter e =
     (case body_retry_after e of None \<Rightarrow> data_retry_after e | Some n \<Rightarrow> Some n)"

definition flood_wait :: "jserror \<Rightarrow> int option" where
  "flood_wait e =
     (if error_status e = Some 429
      then (case retryAfter e of None \<Rightarrow> None | Some n \<Rightarrow> Some (n + 1))
      else None)"

text \<open>
  The head of the loop, \<open>mid <= s.endId\<close>: the next \<open>copyMessage\<close>, or the summary after
  the loop. A comparison with \<open>undefined\<close> is false.
\<close>

definition loop_test :: "world \<Rightarrow> locals \<Rightarrow> segment" where
  "loop_test w L =
     (if (case endId (heap w (l_s L)) of None \<Rightarrow> False | Some e \<Rightarrow> num_le (l_mid L) e)
      then (w, [CopyMessage (l_dstId L) (l_srcId L) (l_mid L)], Some (K_copy L))
      else (w, [SendMessage (l_chatId L) (M_done (l_ok L) (l_fail L))],
            Some (K_done (l_chatId L))))"

text \<open>\<open>let ok = 0; let fail = 0; for (let mid = s.startId; ...\<close>\<close>

definition loop_enter :: "world \<Rightarrow> chat \<Rightarrow> addr \<Rightarrow> jsnum \<Rightarrow> jsnum \<Rightarrow> segment" where
  "loop_enter w chatId s srcId dstId =
     (case startId (heap w s) of
        None \<Rightarrow> (w, [SendMessage chatId (M_done (Finite 0) (Finite 0))], Some (K_done chatId))
      | Some m \<Rightarrow>
          loop_test w \<lparr>l_chatId = chatId, l_s = s, l_srcId = srcId, l_dstId = dstId,
                       l_mid = m, l_ok = Finite 0, l_fail = Finite 0\<rparr>)"

text \<open>
  The segment of a suspended handler from the settling of its promise to its next
  \<open>await\<close> or its end. A rejected promise that no \<open>try\<close> encloses ends the handler. A
  \<open>sleep\<close> is never rejected.
\<close>

fun resume :: "world \<Rightarrow> cont \<Rightarrow> response \<Rightarrow> segment" where
  "resume w K_return r = (w, [], None)"
| "resume w (K_test chatId) (Rejected e) = (w, [], None)"
| "resume w (K_test chatId) (Resolved v) =
     (let (w1, s) = getSession w chatId
      in if running (heap w1 s) then (w1, [], None)
         else (update w1 s (\<lambda>x. x\<lparr>step := Some TEST_USERNAME\<rparr>), [], None))"
| "resume w (K_test_resolve chatId ref now) r =
     (case settled now r of
        Resolved chat_id \<Rightarrow>
          (w, [SendMessage chatId (M_resolved ref chat_id)], Some (K_test_sent chatId ref))
      | Rejected e \<Rightarrow>
          (w, [SendMessage chatId (M_could_not_resolve ref e)], Some (K_test_failed chatId)))"
| "resume w (K_test_sent chatId ref) (Resolved v) = (resetSession w chatId, [], None)"
| "resume w (K_test_sent chatId ref) (Rejected e) =
     (w, [SendMessage chatId (M_could_not_resolve ref e)], Some (K_test_failed chatId))"
| "resume w (K_test_failed chatId) (Resolved v) = (resetSession w chatId, [], None)"
| "resume w (K_test_failed chatId) (Rejected e) = (w, [], None)"
| "resume w (K_source chatId s now) r =
     (case settled now r of
        Rejected e \<Rightarrow>
          let w1 = resetSession w chatId
          in (w1, [SendMessage chatId (M_could_not_resolve_source (srcRef (heap w1 s)) e)],
              Some K_return)
      | Resolved srcId \<Rightarrow>
          let (calls, now') = resolveChatId (dstRef (heap w s))
          in (w, calls, Some (K_target chatId s srcId now')))"
| "resume w (K_target chatId s srcId now) r =
     (case settled now r of
        Rejected e \<Rightarrow>
          let w1 = resetSession w chatId
          in (w1, [SendMessage chatId (M_could_not_resolve_target (dstRef (heap w1 s)) e)],
              Some K_return)
      | Resolved dstId \<Rightarrow>
          let w1 = update w s (\<lambda>x. x\<lparr>running := True\<rparr>)
          in (w1,
              [SendMessage chatId
                 (M_starting srcId dstId (startId (heap w1 s)) (endId (heap w1 s)))],
              Some (K_starting chatId s srcId dstId)))"
| "resume w (K_starting chatId s srcId dstId) (Rejected e) = (w, [], None)"
| "resume w (K_starting chatId s srcId dstId) (Resolved v) = loop_enter w chatId s srcId dstId"
| "resume w (K_copy L) (Resolved v) =
     (w, [Sleep BASE_DELAY], Some (K_pace (L\<lparr>l_ok := incr (l_ok L)\<rparr>)))"
| "resume w (K_copy L) (Rejected e) =
     (case flood_wait e of
        Some waitSec \<Rightarrow>
          (w, [Log (Flood_control (l_mid L) waitSec), Sleep (Seconds waitSec)], Some (K_flood L))
      | None \<Rightarrow>
          (w, [Log (Fail (l_mid L) e), Sleep FAIL_DELAY],
           Some (K_pace (L\<lparr>l_fail := incr (l_fail L)\<rparr>))))"
| "resume w (K_flood L) r =
     (w, [CopyMessage (l_dstId L) (l_srcId L) (l_mid L)], Some (K_retry L))"
| "resume w (K_retry L) (Resolved v) =
     (w, [Sleep BASE_DELAY], Some (K_pace (L\<lparr>l_ok := incr (l_ok L)\<rparr>)))"
| "resume w (K_retry L) (Rejected e2) =
     (w, [Log (Retry_failed (l_mid L) e2), Sleep FAIL_DELAY],
      Some (K_pace (L\<lparr>l_fail := incr (l_fail L)\<rparr>)))"
| "resume w (K_pace L) r = loop_test w (L\<lparr>l_mid := incr (l_mid L)\<rparr>)"
| "resume w (K_done chatId) (Resolved v) = (resetSession w chatId, [], None)"
| "resume w (K_done chatId) (Rejected e) = (w, [], None)"

subsection \<open>The bot\<close>

text \<open>
  A message that arrives goes to the \<open>message\<close> listener and to every \<open>onText\<close> handler
  whose pattern matches its text (a message without text has the text \<open>""\<close> here: the
  step handler returns at once and no pattern matches). At most one of them does
  anything: the patterns start with different command names, and the step handler
  returns on a text that starts with \<open>/\<close>.
\<close>

fun dispatch ::
  "(world \<Rightarrow> chat \<Rightarrow> jsstring \<Rightarrow> segment) list \<Rightarrow> world \<Rightarrow> chat \<Rightarrow> jsstring
     \<Rightarrow> world \<times> event list \<times> cont list" where
  "dispatch [] w chatId text = (w, [], [])"
| "dispatch (h # hs) w chatId text =
     (let (w1, calls1, k) = h w chatId text;
          (w2, calls2, ks) = dispatch hs w1 chatId text
      in (w2, calls1 @ calls2, (case k of None \<Rightarrow> [] | Some c \<Rightarrow> [c]) @ ks))"

definition deliver :: "world \<Rightarrow> chat \<Rightarrow> jsstring \<Rightarrow> world \<times> event list \<times> cont list" where
  "deliver w chatId text =
     dispatch [on_message, on_start, on_cancel, on_chatid, on_test, on_forward] w chatId text"

text \<open>
  The running bot: the store, the suspended handlers, and the calls made so far. It moves
  when a message arrives, and when the promise that the \<open>i\<close>-th suspended handler awaits
  settles.
\<close>

record bot =
  store :: world
  suspended :: "cont list"
  calls :: "event list"

datatype action = Arrives chat jsstring | Settles nat response

definition drop_nth :: "nat \<Rightarrow> 'a list \<Rightarrow> 'a list" where
  "drop_nth i xs = take i xs @ drop (Suc i) xs"

fun act :: "bot \<Rightarrow> action \<Rightarrow> bot" where
  "act b (Arrives chatId text) =
     (let (w, evs, ks) = deliver (store b) chatId text
      in \<lparr>store = w, suspended = suspended b @ ks, calls = calls b @ evs\<rparr>)"
| "act b (Settles i r) =
     (if i < length (suspended b)
      then let (w, evs, k) = resume (store b) (suspended b ! i) r
           in \<lparr>store = w,
               suspended = (case k of None \<Rightarrow> drop_nth i (suspended b)
                            | Some c \<Rightarrow> (suspended b)[i := c]),
               calls = calls b @ evs\<rparr>
      else b)"

definition start_bot :: bot where
  "start_bot =
     \<lparr>store = \<lparr>heap = (\<lambda>a. fresh_session), next_addr = 0, sessions = Map.empty\<rparr>,
      suspended = [], calls = []\<rparr>"

definition run :: "action list \<Rightarrow> bot" where
  "run acts = foldl act start_bot acts"

text \<open>
  One handler followed through its \<open>await\<close>s: \<open>others k w\<close> is what the other handlers
  made of the store while this one was suspended for the \<open>k\<close>-th time, \<open>env k\<close> is how its
  \<open>k\<close>-th promise settled. \<open>follow others env k n\<close> resumes it \<open>n\<close> times from its \<open>k\<close>-th
  \<open>await\<close> and collects its calls.
\<close>

fun follow ::
  "(nat \<Rightarrow> world \<Rightarrow> world) \<Rightarrow> (nat \<Rightarrow> response) \<Rightarrow> nat \<Rightarrow> nat \<Rightarrow> segment \<Rightarrow> segment" where
  "follow others env k 0 seg = seg"
| "follow others env k (Suc n) (w, evs, None) = (w, evs, None)"
| "follow others env k (Suc n) (w, evs, Some c) =
     (let (w', evs', c') = resume (others k w) c (env k)
      in follow others env (Suc k) n (w', evs @ evs', c'))"

text \<open>
  A run that is in the middle of its loop: chat 7 sets the range 5 to 7, names the
  chats \<open>-1001\<close> and \<open>-1002\<close> by their ids, both are resolved, and the first
  \<open>copyMessage\<close> is under way.
\<close>

definition looping :: bot where
  "looping =
     run [Arrives 7 (js ''/forward 5 7''), Settles 0 (Resolved (Finite 0)),
          Arrives 7 (js ''-1001''), Settles 0 (Resolved (Finite 0)),
          Arrives 7 (js ''-1002''), Settles 0 (Resolved (Finite 0)),
          Settles 0 (Resolved (Finite 0)), Settles 0 (Resolved (Finite 0))]"

text \<open>
  While the first \<open>copyMessage\<close> of that run is under way, chat 7 sends \<open>/test\<close> and then
  \<open>/cancel\<close>; after that the prompt of \<open>/test\<close> is sent.
\<close>

definition test_then_cancel :: bot where
  "test_then_cancel =
     foldl act looping
       [Arrives 7 (js ''/test''), Arrives 7 (js ''/cancel''), Settles 1 (Resolved (Finite 0))]"

text \<open>
  Chat 7 has set the range 5 to 7 and named the source \<open>srcchan\<close>; the target is
  awaited. In \<open>target_named\<close> it has named the target \<open>dstchan\<close>, and \<open>getChat\<close> is asked
  for the source. \<open>not_found\<close> is an error of \<open>getChat\<close>, \<open>too_many\<close> one of
  \<open>copyMessage\<close> with the hint to retry after 3 seconds.
\<close>

definition awaiting_target :: bot where
  "awaiting_target =
     run [Arrives 7 (js ''/forward 5 7''), Settles 0 (Resolved (Finite 0)),
          Arrives 7 (js ''srcchan''), Settles 0 (Resolved (Finite 0))]"

definition target_named :: bot where
  "target_named = act awaiting_target (Arrives 7 (js ''dstchan''))"

definition not_found :: jserror where
  "not_found =
     \<lparr>err_message = js ''chat not found'', statusCode = Some 400, status = None,
      body_retry_after = None, data_retry_after = None\<rparr>"

definition too_many :: jserror where
  "too_many =
     \<lparr>err_message = js ''Too Many Requests'', statusCode = Some 429, status = None,
      body_retry_after = Some 3, data_retry_after = None\<rparr>"




text \<open>
  A run over the range from \<open>2 ^ 53\<close> to \<open>2 ^ 53\<close> in which every call succeeds, up to
  the third \<open>copyMessage\<close>.
\<close>

definition beyond_53 :: bot where
  "beyond_53 =
     run [Arrives 7 (js ''/forward 9007199254740992 9007199254740992''),
          Settles 0 (Resolved (Finite 0)),
          Arrives 7 (js ''-1001''), Settles 0 (Resolved (Finite 0)),
          Arrives 7 (js ''-1002''), Settles 0 (Resolved (Finite 0)),
          Settles 0 (Resolved (Finite 0)), Settles 0 (Resolved (Finite 0)),
          Settles 0 (Resolved (Finite 0)), Settles 0 (Resolved (Finite 0)),
          Settles 0 (Resolved (Finite 0)), Settles 0 (Resolved (Finite 0))]"


text \<open>
  \<open>/test\<close> and the target arrive one after the other; the prompt of \<open>/test\<close> is sent
  before \<open>getChat\<close> answers for the source; then both chats are resolved.
\<close>

definition test_during_resolution :: bot where
  "test_during_resolution =
     run [Arrives 7 (js ''/forward 5 7''), Settles 0 (Resolved (Finite 0)),
          Arrives 7 (js ''srcchan''), Settles 0 (Resolved (Finite 0)),
          Arrives 7 (js ''/test''), Arrives 7 (js ''dstchan''),
          Settles 0 (Resolved (Finite 0)),
          Settles 0 (Resolved (Finite (- 1001))),
          Settles 0 (Resolved (Finite (- 1002)))]"

text \<open>The calls of \<open>copyMessage\<close> among the calls of a handler, and the calls that visit
  the indices \<open>idxs\<close> in order, the \<open>n\<close>-th of them \<open>ks ! n\<close> times.\<close>

fun is_copy :: "event \<Rightarrow> bool" where
  "is_copy (CopyMessage dstId srcId mid) = True"
| "is_copy e = False"

definition visits :: "jsnum \<Rightarrow> jsnum \<Rightarrow> nat list \<Rightarrow> int list \<Rightarrow> event list" where
  "visits dstId srcId ks idxs =
     concat (map (\<lambda>(k, i). replicate k (CopyMessage dstId srcId (Finite i))) (zip ks idxs))"

text \<open>
  The session object at \<open>s\<close> is allocated, has \<open>running = true\<close> and holds the range
  from \<open>a\<close> to \<open>b\<close>: what a forward loop finds when it starts on \<open>s\<close>.
\<close>

definition holds_range :: "addr \<Rightarrow> int \<Rightarrow> int \<Rightarrow> world \<Rightarrow> bool" where
  "holds_range s a b w =
     (s < next_addr w \<and> running (heap w s)
      \<and> startId (heap w s) = Some (Finite a) \<and> endId (heap w s) = Some (Finite b))"

text \<open>
  While the loop is suspended, the chat sends \<open>/cancel\<close> each time; and the first
  \<open>copyMessage\<close> of index 6 is rejected with \<open>too_many\<close>, everything else succeeds.
\<close>

definition cancel_each :: "nat \<Rightarrow> world \<Rightarrow> world" where
  "cancel_each k w = fst (deliver w 7 (js ''/cancel''))"

definition limited_at_6 :: "nat \<Rightarrow> response" where
  "limited_at_6 k = (if k = 3 then Rejected too_many else Resolved (Finite 0))"

subsection \<open>The normalizer in the words of its description\<close>

text \<open>
  The description of the normalizer speaks of texts that match \<open>^-?\d+$\<close>, of texts that
  match \<open>^[A-Za-z0-9_]{5,}$\<close>, and of the integer a text of digits is parsed to. These
  are the languages of the two patterns and the positional value of a numeral, stated
  without reference to how the program scans a text.
\<close>

definition spec_numeric :: "jsstring \<Rightarrow> bool" where
  "spec_numeric t =
     (\<exists>sign ds. t = sign @ ds \<and> (sign = [] \<or> sign = [minus_sign]) \<and> ds \<noteq> []
        \<and> (\<forall>c \<in> set ds. is_digit c))"

definition spec_handle :: "jsstring \<Rightarrow> bool" where
  "spec_handle u = (5 \<le> length u \<and> (\<forall>c \<in> set u. is_word c))"

text \<open>The value of digits in base ten, and of a numeral with an optional minus sign.\<close>

definition decimal :: "jsstring \<Rightarrow> int" where
  "decimal ds = (\<Sum>i < length ds. digit_value (ds ! i) * 10 ^ (length ds - 1 - i))"

definition spec_int :: "jsstring \<Rightarrow> int" where
  "spec_int t = (if t \<noteq> [] \<and> hd t = minus_sign then - decimal (tl t) else decimal t)"

section \<open>Properties\<close>

subsection \<open>Unfolding the definitions on a given input\<close>

lemmas text_defs = js_def trim_def is_space_def is_digit_def is_word_def
lemmas num_defs = Number_def literal_value_def digits_value_def digit_value_def
  to_double_def round_magnitude_def excess_bits.simps num_less_def
lemmas norm_defs = normalizeChatRef_def test_numeric_def test_username_def strip_at_def

lemmas pat_defs = cmd_match_def mention_def match_forward_def spaces1_def int_group_def
lemmas store_defs = new_session_def getSession_def resetSession_def update_def
  session_of_def fresh_session_def
lemmas handler_defs = idle_def on_start_def on_cancel_def on_chatid_def on_test_def
  on_forward_def on_message_def deliver_def loop_test_def loop_enter_def error_status_def
  retryAfter_def flood_wait_def
lemmas bot_defs = run_def start_bot_def drop_nth_def
lemmas all_defs = text_defs num_defs norm_defs pat_defs store_defs handler_defs bot_defs Let_def

subsection \<open>Numbers and the normalizer\<close>

lemma minus_not_digit: "\<not> is_digit minus_sign"
  by (simp add: is_digit_def)

lemma test_numeric_iff: "test_numeric t \<longleftrightarrow> spec_numeric t"
proof
  assume a: "test_numeric t"
  show "spec_numeric t"
  proof (cases t)
    case Nil
    with a show ?thesis by (simp add: test_numeric_def)
  next
    case (Cons c cs)
    show ?thesis
    proof (cases "c = minus_sign")
      case True
      with a Cons have "cs \<noteq> [] \<and> (\<forall>x \<in> set cs. is_digit x)"
        by (simp add: test_numeric_def list_all_iff)
      then show ?thesis
        unfolding spec_numeric_def using Cons True
        by (intro exI[of _ "[minus_sign]"] exI[of _ cs]) simp
    next
      case False
      with a Cons have "\<forall>x \<in> set t. is_digit x"
        by (simp add: test_numeric_def list_all_iff)
      then show ?thesis
        unfolding spec_numeric_def using Cons
        by (intro exI[of _ "[]"] exI[of _ t]) simp
    qed
  qed
next
  assume "spec_numeric t"
  then obtain sign ds where t: "t = sign @ ds" and s: "sign = [] \<or> sign = [minus_sign]"
    and ds: "ds \<noteq> []" "\<forall>c \<in> set ds. is_digit c"
    unfolding spec_numeric_def by blast
  from ds obtain d ds' where d: "ds = d # ds'" "is_digit d" by (cases ds) auto
  then have "d \<noteq> minus_sign" using minus_not_digit by auto
  with s t ds d show "test_numeric t"
    by (auto simp: test_numeric_def list_all_iff)
qed

lemma test_username_iff: "test_username u \<longleftrightarrow> spec_handle u"
  by (simp add: test_username_def spec_handle_def list_all_iff)

lemma foldl_decimal:
  "foldl (\<lambda>acc c. 10 * acc + digit_value c) a ds = a * 10 ^ length ds + decimal ds"
proof (induction ds arbitrary: a rule: rev_induct)
  case Nil
  show ?case by (simp add: decimal_def)
next
  case (snoc d ds)
  have "decimal (ds @ [d]) = 10 * decimal ds + digit_value d"
  proof -
    have "decimal (ds @ [d]) =
        (\<Sum>i < length ds. digit_value ((ds @ [d]) ! i) * 10 ^ (length ds - i)) + digit_value d"
      by (simp add: decimal_def)
    also have "(\<Sum>i < length ds. digit_value ((ds @ [d]) ! i) * 10 ^ (length ds - i))
        = (\<Sum>i < length ds. 10 * (digit_value (ds ! i) * 10 ^ (length ds - 1 - i)))"
    proof (rule sum.cong)
      fix i assume "i \<in> {..<length ds}"
      then have i: "i < length ds" by simp
      then have "length ds - i = Suc (length ds - 1 - i)" by arith
      with i show "digit_value ((ds @ [d]) ! i) * 10 ^ (length ds - i)
          = 10 * (digit_value (ds ! i) * 10 ^ (length ds - 1 - i))"
        by (simp add: nth_append)
    qed simp
    also have "\<dots> = 10 * decimal ds"
      by (simp add: decimal_def sum_distrib_left)
    finally show ?thesis .
  qed
  with snoc show ?case by (simp add: algebra_simps)
qed

lemma digits_value_decimal: "digits_value ds = decimal ds"
  by (simp add: digits_value_def foldl_decimal)

lemma literal_value_spec: "literal_value t = spec_int t"
  by (cases t) (auto simp: literal_value_def spec_int_def digits_value_decimal decimal_def)

lemma excess_bits_small: "a < 9007199254740992 \<Longrightarrow> excess_bits a = 0"
  by (simp add: excess_bits.simps)

lemma round_magnitude_exact:
  assumes "0 \<le> a" "a \<le> 9007199254740992"
  shows "round_magnitude a = a"
proof (cases "a < 9007199254740992")
  case True
  then show ?thesis by (simp add: round_magnitude_def excess_bits_small)
next
  case False
  with assms have "a = 9007199254740992" by simp
  then show ?thesis by (simp add: round_magnitude_def excess_bits.simps)
qed

lemma to_double_exact:
  assumes "\<bar>n\<bar> \<le> 9007199254740992"
  shows "to_double n = Finite n"
proof -
  have "round_magnitude \<bar>n\<bar> = \<bar>n\<bar>"
    using assms by (intro round_magnitude_exact) auto
  moreover have "\<not> (2::int) ^ 1024 \<le> \<bar>n\<bar>"
    using assms by simp
  ultimately show ?thesis
    by (auto simp: to_double_def Let_def)
qed

text \<open>
  Claim C3, as the program has it. \<open>normalizeChatRef\<close> is a total function of the text
  alone. On a text whose trimmed form is an optional minus sign and digits it returns
  \<open>Number\<close> of that numeral: the double nearest to the parsed integer, which is the
  parsed integer whenever its magnitude is at most \<open>2 ^ 53\<close>. On any other text whose
  trimmed form, after one optional leading \<open>@\<close>, is five or more of \<open>A-Z a-z 0-9 _\<close>, it
  returns \<open>@\<close> and that remainder. On every other text, the empty and the blank ones
  among them, it returns \<open>null\<close>.
\<close>

theorem normalizeChatRef_cases:
  "normalizeChatRef input =
     (if spec_numeric (trim input) then Val (RNum (to_double (spec_int (trim input))))
      else if spec_handle (strip_at (trim input))
        then Val (RName (at_sign # strip_at (trim input)))
      else Null)
   \<and> (spec_numeric (trim input) \<and> \<bar>spec_int (trim input)\<bar> \<le> 2 ^ 53
        \<longrightarrow> normalizeChatRef input = Val (RNum (Finite (spec_int (trim input)))))"
proof -
  have not_empty: "spec_numeric t \<Longrightarrow> t \<noteq> []" for t
    by (auto simp: spec_numeric_def)
  have short: "\<not> spec_handle (strip_at [])"
    by (simp add: spec_handle_def strip_at_def)
  have main: "normalizeChatRef input =
     (if spec_numeric (trim input) then Val (RNum (to_double (spec_int (trim input))))
      else if spec_handle (strip_at (trim input))
        then Val (RName (at_sign # strip_at (trim input)))
      else Null)"
    using not_empty [of "trim input"] short
    by (auto simp: normalizeChatRef_def Let_def Number_def test_numeric_iff test_username_iff
        literal_value_spec)
  moreover have "to_double (spec_int (trim input)) = Finite (spec_int (trim input))"
    if "\<bar>spec_int (trim input)\<bar> \<le> 2 ^ 53"
    using that by (intro to_double_exact) simp
  ultimately show ?thesis by simp
qed

theorem normalizeChatRef_cases_witness:
  "spec_numeric (trim (js '' -1001234567890 ''))
   \<and> spec_int (trim (js '' -1001234567890 '')) = - 1001234567890
   \<and> normalizeChatRef (js '' -1001234567890 '') = Val (RNum (Finite (- 1001234567890)))
   \<and> normalizeChatRef (js ''@hime_'') = Val (RName (js ''@hime_''))
   \<and> normalizeChatRef (js ''hime'') = Null"
proof -
  have n: "spec_numeric (trim (js '' -1001234567890 ''))"
    unfolding test_numeric_iff [symmetric] by (simp add: text_defs norm_defs)
  have v: "spec_int (trim (js '' -1001234567890 '')) = - 1001234567890"
    unfolding literal_value_spec [symmetric] by (simp add: text_defs num_defs)
  have h: "\<not> spec_numeric (trim (js ''@hime_''))" "spec_handle (strip_at (trim (js ''@hime_'')))"
    "\<not> spec_numeric (trim (js ''hime''))" "\<not> spec_handle (strip_at (trim (js ''hime'')))"
    unfolding test_numeric_iff [symmetric] test_username_iff [symmetric]
    by (simp_all add: text_defs norm_defs)
  have s: "at_sign # strip_at (trim (js ''@hime_'')) = js ''@hime_''"
    by (simp add: text_defs norm_defs)
  show ?thesis
    using normalizeChatRef_cases [of "js '' -1001234567890 ''"]
      normalizeChatRef_cases [of "js ''@hime_''"] normalizeChatRef_cases [of "js ''hime''"]
      n v h s
    by (simp add: to_double_exact)
qed

text \<open>
  A numeral beyond \<open>2 ^ 53\<close> is not returned as the integer it denotes:
  \<open>Number("9007199254740993")\<close> is \<open>9007199254740992\<close>.
\<close>

theorem normalizeChatRef_rounds:
  "spec_numeric (trim (js ''9007199254740993''))
   \<and> spec_int (trim (js ''9007199254740993'')) = 9007199254740993
   \<and> normalizeChatRef (js ''9007199254740993'') = Val (RNum (Finite 9007199254740992))"
proof -
  have "spec_numeric (trim (js ''9007199254740993''))"
    unfolding test_numeric_iff [symmetric] by (simp add: text_defs norm_defs)
  moreover have "spec_int (trim (js ''9007199254740993'')) = 9007199254740993"
    unfolding literal_value_spec [symmetric] by (simp add: text_defs num_defs)
  moreover have "normalizeChatRef (js ''9007199254740993'') = Val (RNum (Finite 9007199254740992))"
    by (simp add: text_defs norm_defs num_defs Let_def)
  ultimately show ?thesis by simp
qed


subsection \<open>Which handler a text reaches\<close>

lemma after_prefix_iff: "after_prefix p t = Some r \<longleftrightarrow> t = p @ r"
  by (induction p t rule: after_prefix.induct) auto

lemma slash_not_space: "\<not> is_space slash"
  by (simp add: is_space_def)

lemma trim_slash: "trim (slash # rest) \<noteq> [] \<and> hd (trim (slash # rest)) = slash"
proof -
  have "dropWhile is_space (rev rest @ [slash]) = dropWhile is_space (rev rest) @ [slash]
      \<or> dropWhile is_space (rev rest @ [slash]) = [slash]"
    using slash_not_space by (simp add: dropWhile_append)
  then obtain ys where "dropWhile is_space (rev rest @ [slash]) = ys @ [slash]"
    by (metis append_Nil)
  then show ?thesis
    using slash_not_space by (simp add: trim_def)
qed

lemma on_message_command: "on_message w chatId (slash # rest) = idle w"
  using trim_slash [of rest] by (simp add: on_message_def Let_def)

lemma cmd_match_text:
  assumes "cmd_match name text"
  obtains r where "text = slash # js name @ r"
  using assms by (auto simp: cmd_match_def after_prefix_iff split: option.splits)

lemma match_forward_text:
  assumes "match_forward text = Some g"
  obtains r where "text = js ''/forward'' @ r"
  using assms by (auto simp: match_forward_def after_prefix_iff split: option.splits)

lemma deliver_cancel:
  assumes "cmd_match ''cancel'' text"
  shows "deliver w chatId text
    = (resetSession w chatId, [SendMessage chatId M_cancelled], [K_return])"
proof -
  from assms obtain r where t: "text = slash # js ''cancel'' @ r" by (rule cmd_match_text)
  have "\<not> cmd_match ''start'' text" "\<not> cmd_match ''chatid'' text" "\<not> cmd_match ''test'' text"
    "match_forward text = None"
    unfolding t by (simp_all add: cmd_match_def match_forward_def js_def)
  with assms show ?thesis
    by (simp add: deliver_def t on_message_command idle_def on_start_def on_cancel_def
        on_chatid_def on_test_def on_forward_def)
qed

lemma deliver_test:
  assumes "cmd_match ''test'' text"
  shows "deliver w chatId text = (w, [SendMessage chatId M_test_prompt], [K_test chatId])"
proof -
  from assms obtain r where t: "text = slash # js ''test'' @ r" by (rule cmd_match_text)
  have "\<not> cmd_match ''start'' text" "\<not> cmd_match ''chatid'' text" "\<not> cmd_match ''cancel'' text"
    "match_forward text = None"
    unfolding t by (simp_all add: cmd_match_def match_forward_def js_def)
  with assms show ?thesis
    by (simp add: deliver_def t on_message_command idle_def on_start_def on_cancel_def
        on_chatid_def on_test_def on_forward_def)
qed

lemma deliver_forward:
  assumes "after_prefix (js ''/forward'') text = Some r"
  shows "deliver w chatId text
    = (case on_forward w chatId text of (w', evs, k) \<Rightarrow>
         (w', evs, (case k of None \<Rightarrow> [] | Some c \<Rightarrow> [c])))"
proof -
  from assms have t: "text = js ''/forward'' @ r" by (simp add: after_prefix_iff)
  have "\<not> cmd_match ''start'' text" "\<not> cmd_match ''chatid'' text" "\<not> cmd_match ''cancel'' text"
    "\<not> cmd_match ''test'' text"
    unfolding t by (simp_all add: cmd_match_def js_def)
  moreover have "on_message w chatId text = idle w"
    unfolding t by (simp add: js_def on_message_command)
  ultimately show ?thesis
    by (simp add: deliver_def idle_def on_start_def on_cancel_def
        on_chatid_def on_test_def split: prod.splits)
qed

subsection \<open>The store\<close>

lemma running_session:
  assumes "running (session_of w chatId)"
  obtains a where "sessions w chatId = Some a" "heap w a = session_of w chatId"
  using assms by (auto simp: session_of_def fresh_session_def split: option.splits)

lemma getSession_running:
  assumes "running (session_of w chatId)"
  shows "\<exists>a. getSession w chatId = (w, a) \<and> heap w a = session_of w chatId"
  using assms by (auto simp: getSession_def elim: running_session)

lemma getSession_session:
  "getSession w chatId = (w1, s) \<Longrightarrow>
     heap w1 s = session_of w chatId \<and> sessions w1 chatId = Some s
     \<and> session_of w1 chatId = session_of w chatId
     \<and> (\<forall>a. a \<noteq> next_addr w \<longrightarrow> heap w1 a = heap w a)
     \<and> (\<forall>c. c \<noteq> chatId \<longrightarrow> sessions w1 c = sessions w c)"
  by (auto simp: getSession_def new_session_def session_of_def split: option.splits)

lemma session_of_update:
  "sessions w chatId = Some s \<Longrightarrow> session_of (update w s f) chatId = f (heap w s)"
  by (simp add: session_of_def update_def)

lemma session_of_reset: "session_of (resetSession w chatId) chatId = fresh_session"
  by (simp add: session_of_def resetSession_def new_session_def)

lemma heap_reset: "a \<noteq> next_addr w \<Longrightarrow> heap (resetSession w chatId) a = heap w a"
  by (simp add: resetSession_def new_session_def)

lemma sessions_reset: "c \<noteq> chatId \<Longrightarrow> sessions (resetSession w chatId) c = sessions w c"
  by (simp add: resetSession_def new_session_def)

subsection \<open>Numbers that overflow\<close>

lemma excess_bits_bounds:
  "9007199254740992 \<le> a \<Longrightarrow>
     4503599627370496 * 2 ^ excess_bits a \<le> a \<and> a < 9007199254740992 * 2 ^ excess_bits a"
proof (induction a rule: excess_bits.induct)
  case (1 a)
  have half: "2 * (a div 2) \<le> a" "a < 2 * (a div 2) + 2" by presburger+
  show ?case
  proof (cases "a div 2 < 9007199254740992")
    case True
    then have "excess_bits a = 1"
      using "1.prems" by (simp add: excess_bits.simps [of a] excess_bits_small)
    with True "1.prems" show ?thesis by simp
  next
    case False
    then have "4503599627370496 * 2 ^ excess_bits (a div 2) \<le> a div 2
        \<and> a div 2 < 9007199254740992 * 2 ^ excess_bits (a div 2)"
      using "1.IH" "1.prems" by simp
    moreover have "excess_bits a = Suc (excess_bits (a div 2))"
      using "1.prems" by (simp add: excess_bits.simps [of a])
    ultimately show ?thesis using half by simp
  qed
qed

lemma round_magnitude_overflow:
  assumes "2 ^ 1024 \<le> a"
  shows "2 ^ 1024 \<le> round_magnitude a"
proof -
  define e where "e = excess_bits a"
  define q where "q = a div 2 ^ e"
  have "(9007199254740992::int) \<le> 2 ^ 1024" by simp
  with assms have b: "4503599627370496 * 2 ^ e \<le> a" "a < 9007199254740992 * 2 ^ e"
    using excess_bits_bounds [of a] by (simp_all add: e_def)
  have "(2::int) ^ 1024 < 2 ^ 53 * 2 ^ e"
    using assms b(2) by simp
  then have "(2::int) ^ 1024 < 2 ^ (53 + e)" by (simp only: power_add)
  then have "1024 < 53 + e" by (simp only: power_strict_increasing_iff)
  then have "(2::int) ^ 1024 \<le> 2 ^ (52 + e)"
    by (intro power_increasing) simp_all
  also have "(2::int) ^ (52 + e) = 4503599627370496 * 2 ^ e"
    by (simp add: power_add)
  also have "\<dots> \<le> q * 2 ^ e"
  proof -
    have "(4503599627370496 * 2 ^ e) div 2 ^ e \<le> a div ((2::int) ^ e)"
      using b(1) by (intro zdiv_mono1) simp_all
    then have "4503599627370496 \<le> q" by (simp add: q_def)
    then show ?thesis by (intro mult_right_mono) simp_all
  qed
  also have "\<dots> \<le> round_magnitude a"
    unfolding round_magnitude_def Let_def e_def [symmetric] q_def [symmetric]
    by (intro mult_right_mono) simp_all
  finally show ?thesis .
qed

lemma to_double_overflow:
  assumes "2 ^ 1024 \<le> n"
  shows "to_double n = PosInfinity"
proof -
  have "(0::int) \<le> 2 ^ 1024" by simp
  with assms have "0 \<le> n" by linarith
  with assms show ?thesis
    using round_magnitude_overflow [of n] by (simp add: to_double_def Let_def)
qed

lemma digit_value_nine: "digit_value 57 = 9"
  by (simp add: digit_value_def)

lemma digits_value_nines:
  "foldl (\<lambda>acc c. 10 * acc + digit_value c) a (replicate n 57) = (a + 1) * 10 ^ n - 1"
  by (induction n arbitrary: a) (simp_all add: digit_value_nine algebra_simps)

lemma Number_nines: "Number (57 # replicate 308 57) = PosInfinity"
proof -
  have "literal_value (57 # replicate 308 57) = 10 * 10 ^ 308 - 1"
    by (simp add: literal_value_def digits_value_def digits_value_nines digit_value_nine)
  then show ?thesis
    by (simp add: Number_def to_double_overflow)
qed

lemma match_nines:
  "match_forward (js ''/forward 1 9'' @ replicate 308 57)
     = Some (js ''1'', 57 # replicate 308 57)"
  by (simp add: text_defs pat_defs)


subsection \<open>A run in its loop\<close>

lemma looping_eq:
  "looping =
     \<lparr>store = \<lparr>heap = (\<lambda>a. fresh_session)
                 (0 := \<lparr>step = None, running = True, startId = Some (Finite 5),
                        endId = Some (Finite 7), srcRef = Val (RNum (Finite (- 1001))),
                        dstRef = Val (RNum (Finite (- 1002)))\<rparr>),
               next_addr = 1, sessions = [7 \<mapsto> 0]\<rparr>,
      suspended = [K_copy \<lparr>l_chatId = 7, l_s = 0, l_srcId = Finite (- 1001),
                     l_dstId = Finite (- 1002), l_mid = Finite 5, l_ok = Finite 0,
                     l_fail = Finite 0\<rparr>],
      calls = [SendMessage 7 (M_range_set (Finite 5) (Finite 7)),
               SendMessage 7 M_source_received,
               SendMessage 7 (M_starting (Finite (- 1001)) (Finite (- 1002))
                  (Some (Finite 5)) (Some (Finite 7))),
               CopyMessage (Finite (- 1002)) (Finite (- 1001)) (Finite 5)]\<rparr>"
  unfolding looping_def by (simp add: all_defs)

lemma looping_running: "running (session_of (store looping) 7)"
  by (simp add: looping_eq session_of_def)

subsection \<open>\<open>/cancel\<close>\<close>

text \<open>
  Claim C5, as the program has it. \<open>/cancel\<close>, at any step, puts a fresh session
  \<open>{ step: null, running: false }\<close> into the map for the chat: the step is \<open>null\<close>, the
  range and the references are gone, and \<open>running\<close> is \<open>false\<close>, also while a forward loop
  for the chat is executing. No other session object changes, the one a loop in progress
  holds among them, and no suspended handler is touched: the loop goes on over its range.
\<close>

theorem cancel_resets:
  assumes "cmd_match ''cancel'' text"
  shows "deliver w chatId text
      = (resetSession w chatId, [SendMessage chatId M_cancelled], [K_return])
    \<and> session_of (resetSession w chatId) chatId
      = \<lparr>step = None, running = False, startId = None, endId = None,
         srcRef = Undefined, dstRef = Undefined\<rparr>
    \<and> (\<forall>a. a \<noteq> next_addr w \<longrightarrow> heap (resetSession w chatId) a = heap w a)
    \<and> (\<forall>c. c \<noteq> chatId \<longrightarrow> sessions (resetSession w chatId) c = sessions w c)"
  using assms
  by (simp add: deliver_cancel session_of_reset heap_reset sessions_reset fresh_session_def)

theorem cancel_resets_witness:
  "deliver (store looping) 7 (js ''/cancel'')
      = (resetSession (store looping) 7, [SendMessage 7 M_cancelled], [K_return])
   \<and> session_of (resetSession (store looping) 7) 7
      = \<lparr>step = None, running = False, startId = None, endId = None,
         srcRef = Undefined, dstRef = Undefined\<rparr>
   \<and> heap (resetSession (store looping) 7) 0 = heap (store looping) 0
   \<and> sessions (resetSession (store looping) 7) 8 = sessions (store looping) 8"
proof -
  have "cmd_match ''cancel'' (js ''/cancel'')"
    by (simp add: text_defs pat_defs)
  moreover have "0 \<noteq> next_addr (store looping)"
    by (simp add: looping_eq)
  ultimately show ?thesis
    using cancel_resets [of "js ''/cancel''" "store looping" 7] by simp
qed

text \<open>
  The flag does not survive: in the run \<open>looping\<close> the session of chat 7 has
  \<open>running = true\<close>; after \<open>/cancel\<close> it has \<open>running = false\<close>, and the loop is still
  suspended at its \<open>copyMessage\<close>.
\<close>

theorem cancel_clears_running:
  "running (session_of (store looping) 7)
   \<and> \<not> running (session_of (store (act looping (Arrives 7 (js ''/cancel'')))) 7)
   \<and> suspended (act looping (Arrives 7 (js ''/cancel'')))
       = [K_copy \<lparr>l_chatId = 7, l_s = 0, l_srcId = Finite (- 1001),
             l_dstId = Finite (- 1002), l_mid = Finite 5, l_ok = Finite 0,
             l_fail = Finite 0\<rparr>, K_return]"
  by (simp add: looping_eq all_defs)

subsection \<open>\<open>/forward\<close>\<close>

text \<open>
  Claim C6. When the session of the chat has \<open>running = true\<close>, a \<open>/forward\<close> command
  (a text the pattern of the handler matches) sends the warning that a job is already
  running and changes nothing: the store after it is the store before it, so range,
  references, step and \<open>running\<close> of every session keep their values.
\<close>

theorem forward_rejected_while_running:
  assumes "match_forward text = Some g" and "running (session_of w chatId)"
  shows "deliver w chatId text = (w, [SendMessage chatId M_already_running], [K_return])
    \<and> resume w K_return r = (w, [], None)"
proof -
  from assms(1) obtain rest where "after_prefix (js ''/forward'') text = Some rest"
    by (auto simp: after_prefix_iff elim: match_forward_text)
  moreover from assms(2) obtain a where "getSession w chatId = (w, a)"
    "heap w a = session_of w chatId"
    using getSession_running by blast
  ultimately show ?thesis
    using assms by (cases g) (simp add: deliver_forward on_forward_def)
qed

theorem forward_rejected_while_running_witness:
  "match_forward (js ''/forward 1 2'') = Some (js ''1'', js ''2'')
   \<and> running (session_of (store looping) 7)
   \<and> deliver (store looping) 7 (js ''/forward 1 2'')
      = (store looping, [SendMessage 7 M_already_running], [K_return])
   \<and> resume (store looping) K_return (Resolved (Finite 0)) = (store looping, [], None)"
proof -
  have m: "match_forward (js ''/forward 1 2'') = Some (js ''1'', js ''2'')"
    by (simp add: text_defs pat_defs)
  show ?thesis
    using forward_rejected_while_running [OF m looping_running, of "Resolved (Finite 0)"] m
      looping_running
    by simp
qed

text \<open>
  Claim C7. A \<open>/forward a b\<close> that is accepted (the pattern matches, the session is not
  running, both numbers are integers) stores the smaller of the two numbers as \<open>startId\<close>
  and the larger as \<open>endId\<close>, so \<open>startId <= endId\<close>; it sets both references to \<open>null\<close>
  and the step to \<open>SRC\<close>, and sends the prompt for the source. \<open>/forward 30 2\<close> stores 2
  and 30.
\<close>

theorem forward_stores_range:
  assumes "match_forward text = Some (a, b)" and "\<not> running (session_of w chatId)"
    and "isInteger (Number a)" and "isInteger (Number b)"
    and "lo = (if num_less (Number b) (Number a) then Number b else Number a)"
    and "hi = (if num_less (Number b) (Number a) then Number a else Number b)"
  shows "(case deliver w chatId text of (w', evs, ks) \<Rightarrow>
       evs = [SendMessage chatId (M_range_set lo hi)] \<and> ks = [K_return]
       \<and> session_of w' chatId
         = (session_of w chatId)\<lparr>startId := Some lo, endId := Some hi,
              srcRef := Null, dstRef := Null, step := Some SRC\<rparr>)
    \<and> num_le lo hi"
proof -
  from assms(1) obtain rest where p: "after_prefix (js ''/forward'') text = Some rest"
    by (auto simp: after_prefix_iff elim: match_forward_text)
  obtain w1 s where g: "getSession w chatId = (w1, s)" by (cases "getSession w chatId")
  from getSession_session [OF g] have s: "heap w1 s = session_of w chatId"
    "sessions w1 chatId = Some s" by simp_all
  have le: "num_le lo hi"
    using assms(3-6) by (cases "Number a"; cases "Number b") (auto simp: num_less_def)
  have "sessions (update w1 s f) chatId = Some s" for f
    using s by (simp add: update_def)
  then show ?thesis
    using assms p g s le
    by (simp add: deliver_forward on_forward_def Let_def session_of_update session_of_def
        update_def)
qed


theorem forward_stores_range_witness:
  "match_forward (js ''/forward 30 2'') = Some (js ''30'', js ''2'')
   \<and> Number (js ''30'') = Finite 30 \<and> Number (js ''2'') = Finite 2
   \<and> (case deliver (store start_bot) 7 (js ''/forward 30 2'') of (w', evs, ks) \<Rightarrow>
       evs = [SendMessage 7 (M_range_set (Finite 2) (Finite 30))] \<and> ks = [K_return]
       \<and> session_of w' 7
         = \<lparr>step = Some SRC, running = False, startId = Some (Finite 2),
            endId = Some (Finite 30), srcRef = Null, dstRef = Null\<rparr>)"
proof -
  have m: "match_forward (js ''/forward 30 2'') = Some (js ''30'', js ''2'')"
    by (simp add: text_defs pat_defs)
  have n: "Number (js ''30'') = Finite 30" "Number (js ''2'') = Finite 2"
    by (simp_all add: text_defs num_defs Let_def)
  have r: "\<not> running (session_of (store start_bot) 7)"
    "session_of (store start_bot) 7 = fresh_session"
    by (simp_all add: start_bot_def session_of_def fresh_session_def)
  have l: "Finite 2 = (if num_less (Number (js ''2'')) (Number (js ''30''))
      then Number (js ''2'') else Number (js ''30''))"
    "Finite 30 = (if num_less (Number (js ''2'')) (Number (js ''30''))
      then Number (js ''30'') else Number (js ''2''))"
    by (simp_all add: n num_less_def)
  have i: "isInteger (Number (js ''30''))" "isInteger (Number (js ''2''))"
    by (simp_all add: n)
  from forward_stores_range [OF m r(1) i l]
  have "case deliver (store start_bot) 7 (js ''/forward 30 2'') of (w', evs, ks) \<Rightarrow>
       evs = [SendMessage 7 (M_range_set (Finite 2) (Finite 30))] \<and> ks = [K_return]
       \<and> session_of w' 7
         = \<lparr>step = Some SRC, running = False, startId = Some (Finite 2),
            endId = Some (Finite 30), srcRef = Null, dstRef = Null\<rparr>"
    by (simp add: r(2) fresh_session_def split: prod.splits)
  with m n show ?thesis by simp
qed

text \<open>
  The two groups of a text that the pattern of \<open>/forward\<close> matches are digits with an
  optional minus sign: the handler, and with it the test \<open>Number.isInteger\<close>, is reached
  by no other values.
\<close>

lemma int_group_numeric:
  assumes "int_group r = Some (g, rest)"
  shows "spec_numeric g"
proof -
  from assms have "test_numeric g"
    by (cases r)
      (auto simp: int_group_def test_numeric_def Let_def list_all_iff
        split: if_splits list.splits dest: set_takeWhileD)
  then show ?thesis by (simp add: test_numeric_iff)
qed

lemma match_forward_numeric:
  assumes "match_forward text = Some (a, b)"
  shows "spec_numeric a \<and> spec_numeric b"
proof -
  from assms obtain r1 r2 r3 r4
    where "int_group r1 = Some (a, r2)" "int_group r3 = Some (b, r4)"
    by (auto simp: match_forward_def split: option.splits if_splits)
  then show ?thesis by (blast intro: int_group_numeric)
qed

text \<open>
  A text that starts with \<open>/forward\<close> and does not match the pattern reaches no handler:
  nothing is sent and nothing changes. The message that start and end must be integers
  is sent when the pattern matches, the session is not running and \<open>Number\<close> of one of
  the groups is not an integer, which is a numeral so large that it is \<open>Infinity\<close>; then
  no field of any session changes.
\<close>

lemma forward_format_error:
  "(after_prefix (js ''/forward'') text = Some rest \<and> match_forward text = None
      \<longrightarrow> deliver w chatId text = (w, [], []))
   \<and> (match_forward text = Some (a, b) \<and> \<not> running (session_of w chatId)
        \<and> \<not> (isInteger (Number a) \<and> isInteger (Number b))
      \<longrightarrow> (case deliver w chatId text of (w', evs, ks) \<Rightarrow>
             evs = [SendMessage chatId M_must_be_integers] \<and> ks = [K_return]
             \<and> session_of w' chatId = session_of w chatId
             \<and> (\<forall>x. x \<noteq> next_addr w \<longrightarrow> heap w' x = heap w x)
             \<and> (\<forall>c. c \<noteq> chatId \<longrightarrow> sessions w' c = sessions w c)))"
proof (intro conjI impI)
  assume "after_prefix (js ''/forward'') text = Some rest \<and> match_forward text = None"
  then show "deliver w chatId text = (w, [], [])"
    by (simp add: deliver_forward on_forward_def idle_def)
next
  assume a: "match_forward text = Some (a, b) \<and> \<not> running (session_of w chatId)
    \<and> \<not> (isInteger (Number a) \<and> isInteger (Number b))"
  then obtain rest where p: "after_prefix (js ''/forward'') text = Some rest"
    by (auto simp: after_prefix_iff elim: match_forward_text)
  obtain w1 s where g: "getSession w chatId = (w1, s)" by (cases "getSession w chatId")
  note s = getSession_session [OF g]
  from a p g s show "case deliver w chatId text of (w', evs, ks) \<Rightarrow>
             evs = [SendMessage chatId M_must_be_integers] \<and> ks = [K_return]
             \<and> session_of w' chatId = session_of w chatId
             \<and> (\<forall>x. x \<noteq> next_addr w \<longrightarrow> heap w' x = heap w x)
             \<and> (\<forall>c. c \<noteq> chatId \<longrightarrow> sessions w' c = sessions w c)"
    by (auto simp: deliver_forward on_forward_def Let_def)
qed

lemma forward_format_error_witness:
  "match_forward (js ''/forward 1.5 2'') = None
   \<and> deliver (store start_bot) 7 (js ''/forward 1.5 2'') = (store start_bot, [], [])
   \<and> match_forward (js ''/forward 1 9'' @ replicate 308 57)
        = Some (js ''1'', 57 # replicate 308 57)
   \<and> \<not> isInteger (Number (57 # replicate 308 57))
   \<and> (case deliver (store looping) 8 (js ''/forward 1 9'' @ replicate 308 57) of
        (w', evs, ks) \<Rightarrow>
          evs = [SendMessage 8 M_must_be_integers] \<and> ks = [K_return]
          \<and> session_of w' 8 = session_of (store looping) 8
          \<and> heap w' 0 = heap (store looping) 0
          \<and> sessions w' 7 = sessions (store looping) 7)"
proof -
  have a: "after_prefix (js ''/forward'') (js ''/forward 1.5 2'') = Some (js '' 1.5 2'')"
    "match_forward (js ''/forward 1.5 2'') = None"
    by (simp_all add: text_defs pat_defs)
  have b: "\<not> running (session_of (store looping) 8)" "0 \<noteq> next_addr (store looping)"
    by (simp_all add: looping_eq session_of_def fresh_session_def)
  have c: "\<not> isInteger (Number (57 # replicate 308 57))"
    by (simp add: Number_nines)
  from forward_format_error [of "js ''/forward 1.5 2''" "js '' 1.5 2''" "store start_bot" 7]
    a
  have "deliver (store start_bot) 7 (js ''/forward 1.5 2'') = (store start_bot, [], [])"
    by simp
  moreover from
    forward_format_error [of "js ''/forward 1 9'' @ replicate 308 57" _ "store looping" 8
      "js ''1''" "57 # replicate 308 57"] match_nines b c
  have "case deliver (store looping) 8 (js ''/forward 1 9'' @ replicate 308 57) of
        (w', evs, ks) \<Rightarrow>
          evs = [SendMessage 8 M_must_be_integers] \<and> ks = [K_return]
          \<and> session_of w' 8 = session_of (store looping) 8
          \<and> heap w' 0 = heap (store looping) 0
          \<and> sessions w' 7 = sessions (store looping) 7"
    by (auto split: prod.splits)
  ultimately show ?thesis
    using a match_nines c by simp
qed

text \<open>
  Claim C8 says that a \<open>/forward\<close> whose two values do not both parse as integers is
  answered with a format error. The handler has the test for it,
  \<open>Number.isInteger\<close> on both values, and the message that start and end must be
  integers; but its pattern admits only digits with an optional minus sign, so a text
  with any other value never reaches the handler. When chat 7, whose session is not
  running, sends \<open>/forward 1.5 2\<close> or \<open>/forward a b\<close> to the bot that has just started, no
  handler runs: no call is made, none is suspended, and the store is as before.
\<close>

theorem forward_malformed_ignored:
  "\<not> running (session_of (store start_bot) 7)
   \<and> run [Arrives 7 (js ''/forward 1.5 2'')] = start_bot
   \<and> run [Arrives 7 (js ''/forward a b'')] = start_bot
   \<and> calls start_bot = [] \<and> suspended start_bot = []"
  by (simp add: all_defs)

subsection \<open>\<open>/test\<close>\<close>

text \<open>
  Claim C10, as the program has it. \<open>/test\<close> sends its prompt whatever the session is,
  and changes nothing in that segment. The handler reads \<open>running\<close> when that send has
  resolved, from the session the chat has then: if it is \<open>true\<close>, the handler returns
  and the store is left as it is; if it is \<open>false\<close>, the step of that session is set to
  \<open>TEST_USERNAME\<close> and nothing else changes.
\<close>

theorem test_while_running:
  assumes "cmd_match ''test'' text"
  shows "deliver w chatId text = (w, [SendMessage chatId M_test_prompt], [K_test chatId])
    \<and> (running (session_of w2 chatId) \<longrightarrow> resume w2 (K_test chatId) r = (w2, [], None))
    \<and> (\<not> running (session_of w2 chatId) \<longrightarrow>
         (case resume w2 (K_test chatId) (Resolved v) of (w3, evs, k) \<Rightarrow>
            evs = [] \<and> k = None
            \<and> session_of w3 chatId = (session_of w2 chatId)\<lparr>step := Some TEST_USERNAME\<rparr>))"
proof -
  have "resume w2 (K_test chatId) r = (w2, [], None)" if "running (session_of w2 chatId)"
  proof -
    from that obtain a where "getSession w2 chatId = (w2, a)"
      "heap w2 a = session_of w2 chatId"
      using getSession_running by blast
    with that show ?thesis by (cases r) simp_all
  qed
  moreover have "case resume w2 (K_test chatId) (Resolved v) of (w3, evs, k) \<Rightarrow>
            evs = [] \<and> k = None
            \<and> session_of w3 chatId = (session_of w2 chatId)\<lparr>step := Some TEST_USERNAME\<rparr>"
    if "\<not> running (session_of w2 chatId)"
  proof -
    obtain w1 s where g: "getSession w2 chatId = (w1, s)" by (cases "getSession w2 chatId")
    note s = getSession_session [OF g]
    from that g s show ?thesis by (simp add: session_of_update)
  qed
  ultimately show ?thesis using assms by (simp add: deliver_test)
qed

theorem test_while_running_witness:
  "deliver (store looping) 7 (js ''/test'')
     = (store looping, [SendMessage 7 M_test_prompt], [K_test 7])
   \<and> running (session_of (store looping) 7)
   \<and> resume (store looping) (K_test 7) (Resolved (Finite 0)) = (store looping, [], None)
   \<and> \<not> running (session_of (store start_bot) 7)
   \<and> (case resume (store start_bot) (K_test 7) (Resolved (Finite 0)) of (w3, evs, k) \<Rightarrow>
         evs = [] \<and> k = None
         \<and> session_of w3 7
           = \<lparr>step = Some TEST_USERNAME, running = False, startId = None, endId = None,
              srcRef = Undefined, dstRef = Undefined\<rparr>)"
proof -
  have c: "cmd_match ''test'' (js ''/test'')"
    by (simp add: text_defs pat_defs)
  have n: "\<not> running (session_of (store start_bot) 7)"
    "session_of (store start_bot) 7
      = \<lparr>step = None, running = False, startId = None, endId = None,
         srcRef = Undefined, dstRef = Undefined\<rparr>"
    by (simp_all add: start_bot_def session_of_def fresh_session_def)
  from test_while_running [OF c, of "store looping" 7 "store looping" "Resolved (Finite 0)"]
    looping_running
  have 1: "deliver (store looping) 7 (js ''/test'')
     = (store looping, [SendMessage 7 M_test_prompt], [K_test 7])
   \<and> resume (store looping) (K_test 7) (Resolved (Finite 0)) = (store looping, [], None)"
    by simp
  from test_while_running [OF c, of _ 7 "store start_bot" _ "Finite 0"] n
  have 2: "case resume (store start_bot) (K_test 7) (Resolved (Finite 0)) of (w3, evs, k) \<Rightarrow>
         evs = [] \<and> k = None
         \<and> session_of w3 7
           = \<lparr>step = Some TEST_USERNAME, running = False, startId = None, endId = None,
              srcRef = Undefined, dstRef = Undefined\<rparr>"
    by (simp split: prod.splits)
  from 1 2 n(1) looping_running show ?thesis by blast
qed

text \<open>
  The flag is not read when \<open>/test\<close> arrives. In the run \<open>test_then_cancel\<close> the session
  of chat 7 has \<open>running = true\<close> when \<open>/test\<close> arrives; \<open>/cancel\<close> arrives before the prompt
  is sent; then the step of the chat's session is set to \<open>TEST_USERNAME\<close>, while the loop
  is still suspended at its \<open>copyMessage\<close>.
\<close>

theorem test_after_cancel:
  "running (session_of (store looping) 7)
   \<and> step (session_of (store looping) 7) = None
   \<and> step (session_of (store test_then_cancel) 7) = Some TEST_USERNAME
   \<and> calls test_then_cancel
       = calls looping @ [SendMessage 7 M_test_prompt, SendMessage 7 M_cancelled]
   \<and> suspended test_then_cancel
       = [K_copy \<lparr>l_chatId = 7, l_s = 0, l_srcId = Finite (- 1001),
            l_dstId = Finite (- 1002), l_mid = Finite 5, l_ok = Finite 0, l_fail = Finite 0\<rparr>,
          K_return]"
  unfolding test_then_cancel_def looping_eq by (simp add: all_defs)

subsection \<open>Free text\<close>

lemma last_dropWhile: "dropWhile P xs \<noteq> [] \<Longrightarrow> last (dropWhile P xs) = last xs"
  by (induction xs) (auto split: if_splits)

lemma dropWhile_same: "xs = [] \<or> \<not> P (hd xs) \<Longrightarrow> dropWhile P xs = xs"
  by (cases xs) auto

lemma trim_ends:
  "trim s = [] \<or> (\<not> is_space (hd (trim s)) \<and> \<not> is_space (last (trim s)))"
proof (cases "trim s = []")
  case True
  then show ?thesis by simp
next
  case False
  define u where "u = dropWhile is_space s"
  define v where "v = dropWhile is_space (rev u)"
  have t: "trim s = rev v" by (simp add: trim_def u_def v_def)
  with False have v: "v \<noteq> []" by simp
  then have hv: "\<not> is_space (hd v)" unfolding v_def by (rule hd_dropWhile)
  from v have u: "u \<noteq> []" by (auto simp: v_def)
  then have hu: "\<not> is_space (hd u)" unfolding u_def by (rule hd_dropWhile)
  have "last v = last (rev u)" using v unfolding v_def by (rule last_dropWhile)
  also have "\<dots> = hd u" using u by (simp add: last_rev)
  finally have "hd (rev v) = hd u" using v by (simp add: hd_rev)
  with hu hv v t show ?thesis by (simp add: last_rev)
qed

lemma trim_idem: "trim (trim s) = trim s"
proof (cases "trim s = []")
  case True
  have "trim [] = []" by (simp add: trim_def)
  with True show ?thesis by simp
next
  case False
  with trim_ends [of s] have e: "\<not> is_space (hd (trim s))" "\<not> is_space (last (trim s))"
    by simp_all
  have "dropWhile is_space (trim s) = trim s"
    using e(1) by (intro dropWhile_same) simp
  moreover have "dropWhile is_space (rev (trim s)) = rev (trim s)"
    using e(2) False by (intro dropWhile_same) (simp add: hd_rev)
  ultimately show ?thesis by (simp add: trim_def [of "trim s"])
qed

lemma slash_not_word: "\<not> is_word slash" "\<not> is_digit slash"
  by (simp_all add: is_word_def is_digit_def)

lemma not_falsy_plain:
  assumes "\<not> falsy (normalizeChatRef t)"
  shows "trim t \<noteq> [] \<and> hd (trim t) \<noteq> slash"
proof (cases "trim t")
  case Nil
  with assms show ?thesis by (simp add: normalizeChatRef_def)
next
  case (Cons c cs)
  have "c \<noteq> slash"
  proof
    assume "c = slash"
    with Cons have "\<not> test_numeric (trim t)" "\<not> test_username (strip_at (trim t))"
      using slash_not_word
      by (auto simp: test_numeric_def test_username_def strip_at_def)
    with assms Cons show False by (simp add: normalizeChatRef_def Let_def)
  qed
  with Cons show ?thesis by simp
qed

lemma deliver_plain:
  assumes "text = [] \<or> hd text \<noteq> slash"
  shows "deliver w chatId text
      = (case on_message w chatId text of (w', evs, k) \<Rightarrow>
           (w', evs, (case k of None \<Rightarrow> [] | Some c \<Rightarrow> [c])))"
proof -
  have no: "\<not> cmd_match name text" for name
    using assms by (auto elim!: cmd_match_text)
  have "match_forward text = None"
  proof (cases "match_forward text")
    case (Some g)
    then obtain r where "text = js ''/forward'' @ r" by (rule match_forward_text)
    with assms show ?thesis by (simp add: js_def)
  qed simp
  with no show ?thesis
    by (simp add: deliver_def idle_def on_start_def on_cancel_def on_chatid_def on_test_def
        on_forward_def split: prod.splits)
qed

lemma plain_text:
  assumes "trim text \<noteq> []" "hd (trim text) \<noteq> slash"
  shows "text = [] \<or> hd text \<noteq> slash"
proof (rule ccontr)
  assume "\<not> (text = [] \<or> hd text \<noteq> slash)"
  then obtain rest where "text = slash # rest" by (cases "text") auto
  with trim_slash [of rest] assms show False by simp
qed

subsection \<open>Following a handler\<close>

text \<open>A handler that has ended stays ended, and following can be done in two parts.\<close>

lemma follow_ended: "follow others env k n (w, evs, None) = (w, evs, None)"
  by (cases n) simp_all

lemma follow_add:
  "follow others env k (n + m) seg = follow others env (k + n) m (follow others env k n seg)"
proof (induction n arbitrary: k seg)
  case 0
  show ?case by simp
next
  case (Suc n)
  obtain w evs c where seg: "seg = (w, evs, c)" by (cases seg)
  show ?case
  proof (cases c)
    case None
    with seg show ?thesis by (simp add: follow_ended)
  next
    case (Some c')
    with seg Suc show ?thesis by (simp split: prod.splits)
  qed
qed

subsection \<open>Resolving the two chats\<close>

lemma awaiting_target_eq:
  "store awaiting_target =
     \<lparr>heap = (\<lambda>a. fresh_session)
         (0 := \<lparr>step = Some DST, running = False, startId = Some (Finite 5),
                endId = Some (Finite 7), srcRef = Val (RName (js ''@srcchan'')),
                dstRef = Null\<rparr>),
      next_addr = 1, sessions = [7 \<mapsto> 0]\<rparr>"
  unfolding awaiting_target_def by (simp add: all_defs)

lemma target_named_eq:
  "store target_named =
     \<lparr>heap = (\<lambda>a. fresh_session)
         (0 := \<lparr>step = None, running = False, startId = Some (Finite 5),
                endId = Some (Finite 7), srcRef = Val (RName (js ''@srcchan'')),
                dstRef = Val (RName (js ''@dstchan''))\<rparr>),
      next_addr = 1, sessions = [7 \<mapsto> 0]\<rparr>"
  unfolding target_named_def awaiting_target_def by (simp add: all_defs)

text \<open>
  Claim C4. The handler is followed from the arrival of the target, in the step \<open>DST\<close>,
  with a text that \<open>normalizeChatRef\<close> accepts: \<open>w1\<close>, \<open>calls1\<close> and \<open>ks\<close> are the store,
  the calls and the suspended handler after its first segment, \<open>w2\<close> and \<open>w3\<close> the store
  when the first and the second lookup settle (\<open>others\<close> is what other handlers did to it
  meanwhile), \<open>look1\<close> and \<open>look2\<close> the lookups of the source and of the target.

  In the first segment the session gets the target and the step \<open>null\<close> and nothing else
  changes, \<open>running\<close> included; only the source is looked up. When the source is
  rejected, the chat gets a fresh session (no range, no references, \<open>running = false\<close>),
  no other session object changes, the message about the source with the error is
  sent, and the handler ends after it: whatever follows, it makes no further call, so
  the target is not looked up and no message is copied. When the source is there, the
  store is left as it is and the target is looked up; when the target is rejected, the
  same holds with the message about the target. When both are there, \<open>running\<close> of the
  session object becomes \<open>true\<close>, nothing else changes, the run is announced, and the
  handler goes on to the loop.
\<close>

theorem resolution_before_run:
  assumes "sessions w chatId = Some s" and "step (heap w s) = Some DST"
    and "ref = normalizeChatRef (trim text)" and "\<not> falsy ref"
    and "(look1, now1) = resolveChatId (srcRef (heap w s))"
    and "(w1, calls1, ks) = deliver w chatId text"
    and "w2 = others 0 w1" and "(look2, now2) = resolveChatId (dstRef (heap w2 s))"
    and "w3 = others 1 w2"
  shows "calls1 = look1 \<and> ks = [K_source chatId s now1]
    \<and> session_of w1 chatId = (heap w s)\<lparr>dstRef := ref, step := None\<rparr>
    \<and> heap w1 s = (heap w s)\<lparr>dstRef := ref, step := None\<rparr>
    \<and> (\<forall>a. a \<noteq> s \<longrightarrow> heap w1 a = heap w a)
    \<and> sessions w1 = sessions w \<and> next_addr w1 = next_addr w
    \<and> (settled now1 (env 0) = Rejected e \<longrightarrow>
         (case follow others env 0 1 (w1, calls1, Some (K_source chatId s now1)) of
            (w', calls', k') \<Rightarrow>
            calls' = look1
               @ [SendMessage chatId (M_could_not_resolve_source (srcRef (heap w' s)) e)]
            \<and> k' = Some K_return
            \<and> session_of w' chatId
              = \<lparr>step = None, running = False, startId = None, endId = None,
                 srcRef = Undefined, dstRef = Undefined\<rparr>
            \<and> (\<forall>a. a \<noteq> next_addr w2 \<longrightarrow> heap w' a = heap w2 a)
            \<and> follow others env 0 (Suc (Suc n)) (w1, calls1, Some (K_source chatId s now1))
              = (others 1 w', calls', None)))
    \<and> (settled now1 (env 0) = Resolved srcId \<longrightarrow>
         follow others env 0 1 (w1, calls1, Some (K_source chatId s now1))
           = (w2, look1 @ look2, Some (K_target chatId s srcId now2)))
    \<and> (settled now1 (env 0) = Resolved srcId \<and> settled now2 (env 1) = Rejected e \<longrightarrow>
         (case follow others env 0 2 (w1, calls1, Some (K_source chatId s now1)) of
            (w', calls', k') \<Rightarrow>
            calls' = look1 @ look2
               @ [SendMessage chatId (M_could_not_resolve_target (dstRef (heap w' s)) e)]
            \<and> k' = Some K_return
            \<and> session_of w' chatId
              = \<lparr>step = None, running = False, startId = None, endId = None,
                 srcRef = Undefined, dstRef = Undefined\<rparr>
            \<and> (\<forall>a. a \<noteq> next_addr w3 \<longrightarrow> heap w' a = heap w3 a)
            \<and> follow others env 0 (Suc (Suc (Suc n)))
                  (w1, calls1, Some (K_source chatId s now1))
              = (others 2 w', calls', None)))
    \<and> (settled now1 (env 0) = Resolved srcId \<and> settled now2 (env 1) = Resolved dstId \<longrightarrow>
         (case follow others env 0 2 (w1, calls1, Some (K_source chatId s now1)) of
            (w', calls', k') \<Rightarrow>
            calls' = look1 @ look2
               @ [SendMessage chatId
                    (M_starting srcId dstId (startId (heap w3 s)) (endId (heap w3 s)))]
            \<and> k' = Some (K_starting chatId s srcId dstId)
            \<and> running (heap w' s)
            \<and> heap w' s = (heap w3 s)\<lparr>running := True\<rparr>
            \<and> (\<forall>a. a \<noteq> s \<longrightarrow> heap w' a = heap w3 a)
            \<and> sessions w' = sessions w3 \<and> next_addr w' = next_addr w3
            \<and> (sessions w3 chatId = Some s \<longrightarrow> running (session_of w' chatId))))"
proof -
  from assms(3,4) have p: "trim text \<noteq> []" "hd (trim text) \<noteq> slash"
    using not_falsy_plain [of "trim text"] by (simp_all add: trim_idem)
  then have "text = [] \<or> hd text \<noteq> slash" by (rule plain_text)
  then have "deliver w chatId text
      = (case on_message w chatId text of (w', evs, k) \<Rightarrow>
           (w', evs, (case k of None \<Rightarrow> [] | Some c \<Rightarrow> [c])))"
    by (rule deliver_plain)
  also have "on_message w chatId text
      = (update w s (\<lambda>x. x\<lparr>dstRef := ref, step := None\<rparr>), look1,
         Some (K_source chatId s now1))"
    using assms(1-5) p
    by (simp add: on_message_def Let_def update_def split: prod.splits)
      (metis fst_conv snd_conv)
  finally have first:
    "w1 = update w s (\<lambda>x. x\<lparr>dstRef := ref, step := None\<rparr>)" "calls1 = look1"
    "ks = [K_source chatId s now1]"
    using assms(6) by simp_all
  have l2: "resolveChatId (dstRef (heap w2 s)) = (look2, now2)"
    using assms(8) by simp
  have a: "calls1 = look1 \<and> ks = [K_source chatId s now1]
    \<and> session_of w1 chatId = (heap w s)\<lparr>dstRef := ref, step := None\<rparr>
    \<and> heap w1 s = (heap w s)\<lparr>dstRef := ref, step := None\<rparr>
    \<and> (\<forall>a. a \<noteq> s \<longrightarrow> heap w1 a = heap w a)
    \<and> sessions w1 = sessions w \<and> next_addr w1 = next_addr w"
    using first assms(1) by (simp add: session_of_def update_def)
  have b: "settled now1 (env 0) = Rejected e \<longrightarrow>
         (case follow others env 0 1 (w1, calls1, Some (K_source chatId s now1)) of
            (w', calls', k') \<Rightarrow>
            calls' = look1
               @ [SendMessage chatId (M_could_not_resolve_source (srcRef (heap w' s)) e)]
            \<and> k' = Some K_return
            \<and> session_of w' chatId
              = \<lparr>step = None, running = False, startId = None, endId = None,
                 srcRef = Undefined, dstRef = Undefined\<rparr>
            \<and> (\<forall>a. a \<noteq> next_addr w2 \<longrightarrow> heap w' a = heap w2 a)
            \<and> follow others env 0 (Suc (Suc n)) (w1, calls1, Some (K_source chatId s now1))
              = (others 1 w', calls', None))"
    using first(2) assms(7) session_of_reset [of w2 chatId]
    by (simp add: follow_ended fresh_session_def heap_reset Let_def)
  have c: "settled now1 (env 0) = Resolved srcId \<longrightarrow>
         follow others env 0 1 (w1, calls1, Some (K_source chatId s now1))
           = (w2, look1 @ look2, Some (K_target chatId s srcId now2))"
    using first(2) assms(7) l2 by simp
  have d: "settled now1 (env 0) = Resolved srcId \<and> settled now2 (env 1) = Rejected e \<longrightarrow>
         (case follow others env 0 2 (w1, calls1, Some (K_source chatId s now1)) of
            (w', calls', k') \<Rightarrow>
            calls' = look1 @ look2
               @ [SendMessage chatId (M_could_not_resolve_target (dstRef (heap w' s)) e)]
            \<and> k' = Some K_return
            \<and> session_of w' chatId
              = \<lparr>step = None, running = False, startId = None, endId = None,
                 srcRef = Undefined, dstRef = Undefined\<rparr>
            \<and> (\<forall>a. a \<noteq> next_addr w3 \<longrightarrow> heap w' a = heap w3 a)
            \<and> follow others env 0 (Suc (Suc (Suc n)))
                  (w1, calls1, Some (K_source chatId s now1))
              = (others 2 w', calls', None))"
    using first(2) assms(7,9) l2 session_of_reset [of w3 chatId]
    by (simp add: follow_ended fresh_session_def heap_reset Let_def numeral_2_eq_2)
  have e: "settled now1 (env 0) = Resolved srcId \<and> settled now2 (env 1) = Resolved dstId \<longrightarrow>
         (case follow others env 0 2 (w1, calls1, Some (K_source chatId s now1)) of
            (w', calls', k') \<Rightarrow>
            calls' = look1 @ look2
               @ [SendMessage chatId
                    (M_starting srcId dstId (startId (heap w3 s)) (endId (heap w3 s)))]
            \<and> k' = Some (K_starting chatId s srcId dstId)
            \<and> running (heap w' s)
            \<and> heap w' s = (heap w3 s)\<lparr>running := True\<rparr>
            \<and> (\<forall>a. a \<noteq> s \<longrightarrow> heap w' a = heap w3 a)
            \<and> sessions w' = sessions w3 \<and> next_addr w' = next_addr w3
            \<and> (sessions w3 chatId = Some s \<longrightarrow> running (session_of w' chatId)))"
    using first(2) assms(7,9) l2
    by (simp add: Let_def numeral_2_eq_2 session_of_def update_def)
  from a b c d e show ?thesis by blast
qed

theorem resolution_before_run_witness:
  "deliver (store awaiting_target) 7 (js ''dstchan'')
     = (store target_named, [GetChat (Val (RName (js ''@srcchan'')))], [K_source 7 0 None])
   \<and> session_of (store target_named) 7
     = \<lparr>step = None, running = False, startId = Some (Finite 5), endId = Some (Finite 7),
        srcRef = Val (RName (js ''@srcchan'')), dstRef = Val (RName (js ''@dstchan''))\<rparr>
   \<and> (case follow (\<lambda>k w. w) (\<lambda>k. Rejected not_found) 0 2
             (store target_named, [GetChat (Val (RName (js ''@srcchan'')))], Some (K_source 7 0 None))
       of (w', calls', k') \<Rightarrow>
         calls' = [GetChat (Val (RName (js ''@srcchan''))),
                   SendMessage 7
                     (M_could_not_resolve_source (Val (RName (js ''@srcchan''))) not_found)]
         \<and> k' = None
         \<and> session_of w' 7
           = \<lparr>step = None, running = False, startId = None, endId = None,
              srcRef = Undefined, dstRef = Undefined\<rparr>
         \<and> \<not> running (heap w' 0))
   \<and> (case follow (\<lambda>k w. w)
             (\<lambda>k. if k = 0 then Resolved (Finite (- 1001)) else Rejected not_found) 0 3
             (store target_named, [GetChat (Val (RName (js ''@srcchan'')))], Some (K_source 7 0 None))
       of (w', calls', k') \<Rightarrow>
         calls' = [GetChat (Val (RName (js ''@srcchan''))),
                   GetChat (Val (RName (js ''@dstchan''))),
                   SendMessage 7
                     (M_could_not_resolve_target (Val (RName (js ''@dstchan''))) not_found)]
         \<and> k' = None
         \<and> session_of w' 7
           = \<lparr>step = None, running = False, startId = None, endId = None,
              srcRef = Undefined, dstRef = Undefined\<rparr>
         \<and> \<not> running (heap w' 0))
   \<and> (case follow (\<lambda>k w. w)
             (\<lambda>k. if k = 0 then Resolved (Finite (- 1001)) else Resolved (Finite (- 1002))) 0 2
             (store target_named, [GetChat (Val (RName (js ''@srcchan'')))], Some (K_source 7 0 None))
       of (w', calls', k') \<Rightarrow>
         calls' = [GetChat (Val (RName (js ''@srcchan''))),
                   GetChat (Val (RName (js ''@dstchan''))),
                   SendMessage 7
                     (M_starting (Finite (- 1001)) (Finite (- 1002)) (Some (Finite 5))
                        (Some (Finite 7)))]
         \<and> k' = Some (K_starting 7 0 (Finite (- 1001)) (Finite (- 1002)))
         \<and> session_of w' 7
           = \<lparr>step = None, running = True, startId = Some (Finite 5), endId = Some (Finite 7),
              srcRef = Val (RName (js ''@srcchan'')), dstRef = Val (RName (js ''@dstchan''))\<rparr>)"
proof -
  let ?src = "Val (RName (js ''@srcchan''))"
  let ?dst = "Val (RName (js ''@dstchan''))"
  have a: "sessions (store awaiting_target) 7 = Some 0"
    "step (heap (store awaiting_target) 0) = Some DST"
    "heap (store awaiting_target) 0
       = \<lparr>step = Some DST, running = False, startId = Some (Finite 5),
          endId = Some (Finite 7), srcRef = ?src, dstRef = Null\<rparr>"
    "next_addr (store awaiting_target) = 1"
    by (simp_all add: awaiting_target_eq)
  have n: "?dst = normalizeChatRef (trim (js ''dstchan''))"
    by (simp add: text_defs norm_defs)
  have f: "\<not> falsy ?dst"
    by (simp add: js_def)
  have l1: "([GetChat ?src], None) = resolveChatId (srcRef (heap (store awaiting_target) 0))"
    by (simp add: a)
  have d: "(store target_named, [GetChat ?src], [K_source 7 0 None])
      = deliver (store awaiting_target) 7 (js ''dstchan'')"
    unfolding target_named_def awaiting_target_def by (simp add: all_defs)
  have b: "heap (store target_named) 0
       = \<lparr>step = None, running = False, startId = Some (Finite 5),
          endId = Some (Finite 7), srcRef = ?src, dstRef = ?dst\<rparr>"
    "sessions (store target_named) 7 = Some 0" "next_addr (store target_named) = 1"
    by (simp_all add: target_named_eq)
  have l2: "([GetChat ?dst], None) = resolveChatId (dstRef (heap (store target_named) 0))"
    by (simp add: b)
  note u = resolution_before_run [where others = "\<lambda>k w. w" and ?w2.0 = "store target_named"
      and ?w3.0 = "store target_named", OF a(1,2) n f l1 d refl l2 refl]
  have 0: "deliver (store awaiting_target) 7 (js ''dstchan'')
     = (store target_named, [GetChat ?src], [K_source 7 0 None])"
    using d by simp
  have 1: "session_of (store target_named) 7
     = \<lparr>step = None, running = False, startId = Some (Finite 5), endId = Some (Finite 7),
        srcRef = ?src, dstRef = ?dst\<rparr>"
    using u [where env = "\<lambda>k. Rejected not_found"] by (simp add: a)
  have 2: "case follow (\<lambda>k w. w) (\<lambda>k. Rejected not_found) 0 2
             (store target_named, [GetChat ?src], Some (K_source 7 0 None))
       of (w', calls', k') \<Rightarrow>
         calls' = [GetChat ?src, SendMessage 7 (M_could_not_resolve_source ?src not_found)]
         \<and> k' = None
         \<and> session_of w' 7
           = \<lparr>step = None, running = False, startId = None, endId = None,
              srcRef = Undefined, dstRef = Undefined\<rparr>
         \<and> \<not> running (heap w' 0)"
    using u [where env = "\<lambda>k. Rejected not_found" and e = not_found and n = 0]
    by (simp add: a b numeral_2_eq_2 split: prod.splits)
  have 3: "case follow (\<lambda>k w. w)
             (\<lambda>k. if k = 0 then Resolved (Finite (- 1001)) else Rejected not_found) 0 3
             (store target_named, [GetChat ?src], Some (K_source 7 0 None))
       of (w', calls', k') \<Rightarrow>
         calls' = [GetChat ?src, GetChat ?dst,
                   SendMessage 7 (M_could_not_resolve_target ?dst not_found)]
         \<and> k' = None
         \<and> session_of w' 7
           = \<lparr>step = None, running = False, startId = None, endId = None,
              srcRef = Undefined, dstRef = Undefined\<rparr>
         \<and> \<not> running (heap w' 0)"
    using u [where env = "\<lambda>k. if k = 0 then Resolved (Finite (- 1001)) else Rejected not_found"
        and e = not_found and n = 0 and srcId = "Finite (- 1001)"]
    by (simp add: a b numeral_3_eq_3 split: prod.splits)
  have 4: "case follow (\<lambda>k w. w)
             (\<lambda>k. if k = 0 then Resolved (Finite (- 1001)) else Resolved (Finite (- 1002))) 0 2
             (store target_named, [GetChat ?src], Some (K_source 7 0 None))
       of (w', calls', k') \<Rightarrow>
         calls' = [GetChat ?src, GetChat ?dst,
                   SendMessage 7
                     (M_starting (Finite (- 1001)) (Finite (- 1002)) (Some (Finite 5))
                        (Some (Finite 7)))]
         \<and> k' = Some (K_starting 7 0 (Finite (- 1001)) (Finite (- 1002)))
         \<and> session_of w' 7
           = \<lparr>step = None, running = True, startId = Some (Finite 5), endId = Some (Finite 7),
              srcRef = ?src, dstRef = ?dst\<rparr>"
    using u [where env = "\<lambda>k. if k = 0 then Resolved (Finite (- 1001))
          else Resolved (Finite (- 1002))"
        and srcId = "Finite (- 1001)" and dstId = "Finite (- 1002)"]
    by (simp add: a b session_of_def split: prod.splits)
  from 0 1 2 3 4 show ?thesis by blast
qed


subsection \<open>Steps and the running flag\<close>

text \<open>
  Claim C9 says that a session with \<open>running = true\<close> has the step \<open>null\<close>. The handler
  of the target sets the step to \<open>null\<close>, awaits the two lookups, and then sets
  \<open>running\<close> without looking at the step again; \<open>/test\<close> tests \<open>running\<close> when its prompt
  is sent, which can be while the lookups are awaited. In the run
  \<open>test_during_resolution\<close> the session of chat 7 ends with \<open>running = true\<close> and the
  step \<open>TEST_USERNAME\<close>, the loop about to start.
\<close>

theorem running_in_test_step:
  "running (session_of (store test_during_resolution) 7)
   \<and> step (session_of (store test_during_resolution) 7) = Some TEST_USERNAME
   \<and> suspended test_during_resolution
       = [K_starting 7 0 (Finite (- 1001)) (Finite (- 1002))]"
  unfolding test_during_resolution_def by (simp add: all_defs)

subsection \<open>The forward loop\<close>




text \<open>
  What the other handlers do while a loop is suspended: no segment of any handler
  changes the range or clears the flag of a session object that is allocated and has
  \<open>running = true\<close>.
\<close>

lemma getSession_keeps:
  "s < next_addr w \<Longrightarrow> getSession w c = (w', a) \<Longrightarrow>
     heap w' s = heap w s \<and> s < next_addr w'"
  by (auto simp: getSession_def new_session_def split: option.splits)

lemma resetSession_keeps:
  "holds_range s a b w \<Longrightarrow> holds_range s a b (resetSession w c)"
  by (auto simp: holds_range_def resetSession_def new_session_def)

lemma update_keeps:
  assumes "holds_range s a b w"
    and "\<And>x. startId (f x) = startId x \<and> endId (f x) = endId x \<and> (running x \<longrightarrow> running (f x))"
  shows "holds_range s a b (update w s' f)"
  using assms by (auto simp: holds_range_def update_def)

lemma on_forward_keeps:
  assumes "holds_range s a b w"
  shows "holds_range s a b (fst (on_forward w c t))"
proof (cases "match_forward t")
  case None
  with assms show ?thesis by (simp add: on_forward_def idle_def)
next
  case (Some g)
  obtain g1 g2 where g: "g = (g1, g2)" by (cases g)
  obtain w1 s1 where gs: "getSession w c = (w1, s1)" by (cases "getSession w c")
  from assms have "s < next_addr w" by (simp add: holds_range_def)
  from getSession_keeps [OF this gs] assms
  have k: "holds_range s a b w1"
    by (auto simp: holds_range_def)
  show ?thesis
  proof (cases "running (heap w1 s1)")
    case True
    with Some g gs k show ?thesis by (simp add: on_forward_def)
  next
    case False
    with k have "s1 \<noteq> s" by (auto simp: holds_range_def)
    then have "holds_range s a b (update w1 s1 f)" for f
      using k by (auto simp: holds_range_def update_def)
    with Some g gs k False show ?thesis
      by (simp add: on_forward_def Let_def split: prod.splits)
  qed
qed

lemma on_message_keeps:
  assumes "holds_range s a b w"
  shows "holds_range s a b (fst (on_message w c t))"
  using assms
  by (auto simp: on_message_def Let_def idle_def split: option.splits stepv.splits prod.splits
      intro!: update_keeps)

lemma dispatch_keeps:
  assumes "\<And>h w. h \<in> set hs \<Longrightarrow> P w \<Longrightarrow> P (fst (h w c t))" and "P w"
  shows "P (fst (dispatch hs w c t))"
  using assms
proof (induction hs arbitrary: w)
  case Nil
  then show ?case by simp
next
  case (Cons h hs)
  obtain w1 evs1 k where h: "h w c t = (w1, evs1, k)" by (cases "h w c t")
  with Cons.prems have "P w1" by (metis fst_conv list.set_intros(1))
  with Cons have "P (fst (dispatch hs w1 c t))" by simp
  with h show ?case by (auto split: prod.splits)
qed

lemma deliver_keeps:
  assumes "holds_range s a b w"
  shows "holds_range s a b (fst (deliver w c t))"
  unfolding deliver_def
proof (rule dispatch_keeps [where P = "holds_range s a b"])
  show "holds_range s a b w" by (rule assms)
next
  fix h w'
  assume "h \<in> set [on_message, on_start, on_cancel, on_chatid, on_test, on_forward]"
    and "holds_range s a b w'"
  then show "holds_range s a b (fst (h w' c t))"
    by (auto simp: on_message_keeps on_forward_keeps resetSession_keeps on_start_def
        on_cancel_def on_chatid_def on_test_def idle_def)
qed

lemma resume_keeps:
  assumes "holds_range s a b w"
  shows "holds_range s a b (fst (resume w k r))"
proof (cases k)
  case (K_test c)
  obtain w1 s1 where gs: "getSession w c = (w1, s1)" by (cases "getSession w c")
  from assms have "s < next_addr w" by (simp add: holds_range_def)
  from getSession_keeps [OF this gs] assms have "holds_range s a b w1"
    by (auto simp: holds_range_def)
  then have "holds_range s a b (update w1 s1 (\<lambda>x. x\<lparr>step := Some TEST_USERNAME\<rparr>))"
    by (rule update_keeps) simp
  with K_test gs \<open>holds_range s a b w1\<close> assms show ?thesis by (cases r) simp_all
next
  case (K_target c s' srcId now)
  have "holds_range s a b (update w s' (\<lambda>x. x\<lparr>running := True\<rparr>))"
    using assms by (rule update_keeps) simp
  with K_target assms show ?thesis
    by (cases "settled now r") (simp_all add: resetSession_keeps Let_def)
next
  case (K_source c s' now)
  with assms show ?thesis
    by (cases "settled now r") (simp_all add: resetSession_keeps Let_def split: prod.splits)
next
  case (K_test_resolve c ref now)
  with assms show ?thesis by (cases "settled now r") simp_all
qed (use assms in \<open>cases r; simp add: resetSession_keeps loop_test_def loop_enter_def
      split: option.splits\<close>)+

lemma visits_Cons:
  "m \<le> b \<Longrightarrow> visits dstId srcId (j # ks) [m..b]
     = replicate j (CopyMessage dstId srcId (Finite m)) @ visits dstId srcId ks [m + 1..b]"
  by (simp add: visits_def upto_rec1 [of m b])

lemma one_index:
  assumes rely: "\<And>k w. P w \<Longrightarrow> P (others k w)" and P: "P w"
    and L: "l_ok L = Finite ok" "l_fail L = Finite fl"
    and c: "0 \<le> ok" "0 \<le> fl" "ok + fl < 9007199254740992"
  obtains n j ok' fl' evs' w' where
    "follow others env k n (w, evs, Some (K_copy L))
       = (w', evs @ evs', Some (K_pace (L\<lparr>l_ok := Finite ok', l_fail := Finite fl'\<rparr>)))"
    "filter is_copy evs' = replicate j (CopyMessage (l_dstId L) (l_srcId L) (l_mid L))"
    "j \<le> 1" "ok' + fl' = ok + fl + 1" "0 \<le> ok'" "0 \<le> fl'" "P w'"
proof -
  have up: "incr (Finite ok) = Finite (ok + 1)" "incr (Finite fl) = Finite (fl + 1)"
    using c by (simp_all add: to_double_exact)
  have same: "L\<lparr>l_ok := Finite x\<rparr> = L\<lparr>l_ok := Finite x, l_fail := Finite fl\<rparr>"
    "L\<lparr>l_fail := Finite y\<rparr> = L\<lparr>l_ok := Finite ok, l_fail := Finite y\<rparr>" for x y
    using L by (cases L; simp)+
  show thesis
  proof (cases "env k")
    case (Resolved v)
    have f: "follow others env k 1 (w, evs, Some (K_copy L))
        = (others k w, evs @ [Sleep BASE_DELAY],
           Some (K_pace (L\<lparr>l_ok := Finite (ok + 1), l_fail := Finite fl\<rparr>)))"
      using Resolved L up same by simp
    show ?thesis
      by (rule that [where j = 0, OF f]) (use c rely P in simp_all)
  next
    case (Rejected e)
    show ?thesis
    proof (cases "flood_wait e")
      case None
      have f: "follow others env k 1 (w, evs, Some (K_copy L))
          = (others k w, evs @ [Log (Fail (l_mid L) e), Sleep FAIL_DELAY],
             Some (K_pace (L\<lparr>l_ok := Finite ok, l_fail := Finite (fl + 1)\<rparr>)))"
        using Rejected None L up same by simp
      show ?thesis
        by (rule that [where j = 0, OF f]) (use c rely P in simp_all)
    next
      case (Some waitSec)
      show ?thesis
      proof (cases "env (Suc (Suc k))")
        case (Resolved v)
        have f: "follow others env k 3 (w, evs, Some (K_copy L))
            = (others (Suc (Suc k)) (others (Suc k) (others k w)),
               evs @ [Log (Flood_control (l_mid L) waitSec), Sleep (Seconds waitSec),
                      CopyMessage (l_dstId L) (l_srcId L) (l_mid L), Sleep BASE_DELAY],
               Some (K_pace (L\<lparr>l_ok := Finite (ok + 1), l_fail := Finite fl\<rparr>)))"
          using Rejected Some Resolved L up same by (simp add: numeral_3_eq_3)
        show ?thesis
          by (rule that [where j = 1, OF f]) (use c rely P in simp_all)
      next
        case (Rejected e2)
        have f: "follow others env k 3 (w, evs, Some (K_copy L))
            = (others (Suc (Suc k)) (others (Suc k) (others k w)),
               evs @ [Log (Flood_control (l_mid L) waitSec), Sleep (Seconds waitSec),
                      CopyMessage (l_dstId L) (l_srcId L) (l_mid L),
                      Log (Retry_failed (l_mid L) e2), Sleep FAIL_DELAY],
               Some (K_pace (L\<lparr>l_ok := Finite ok, l_fail := Finite (fl + 1)\<rparr>)))"
          using \<open>env k = Rejected e\<close> Some Rejected L up same by (simp add: numeral_3_eq_3)
        show ?thesis
          by (rule that [where j = 1, OF f]) (use c rely P in simp_all)
      qed
    qed
  qed
qed


lemma loop_from:
  assumes rely: "\<And>k w. P w \<Longrightarrow> P (others k w)"
    and last: "\<And>w. P w \<Longrightarrow> endId (heap w s) = Some (Finite b)"
    and range: "- 9007199254740992 \<le> a" "b < 9007199254740992" "b - a < 9007199254740992"
  shows "l_mid L = Finite m \<Longrightarrow> l_ok L = Finite ok \<Longrightarrow> l_fail L = Finite fl \<Longrightarrow>
    l_s L = s \<Longrightarrow> l_chatId L = chatId \<Longrightarrow> l_srcId L = srcId \<Longrightarrow> l_dstId L = dstId \<Longrightarrow>
    a \<le> m \<Longrightarrow> m \<le> b \<Longrightarrow> ok + fl = m - a \<Longrightarrow> 0 \<le> ok \<Longrightarrow> 0 \<le> fl \<Longrightarrow> P w \<Longrightarrow>
    \<exists>n w' evs' ks ok' fl'.
      follow others env k n (w, evs, Some (K_copy L))
        = (w', evs @ evs' @ [SendMessage chatId (M_done (Finite ok') (Finite fl'))],
           Some (K_done chatId))
      \<and> length ks = nat (b - m + 1) \<and> (\<forall>x \<in> set ks. x = 1 \<or> x = 2)
      \<and> CopyMessage dstId srcId (Finite m) # filter is_copy evs'
          = visits dstId srcId ks [m..b]
      \<and> ok' + fl' = b - a + 1 \<and> 0 \<le> ok' \<and> 0 \<le> fl'"
proof (induction "nat (b - m)" arbitrary: m k w evs L ok fl rule: less_induct)
  case less
  note L = less.prems(1-7)
  from less.prems range have small: "ok + fl < 9007199254740992" by simp
  obtain n1 j ok1 fl1 evs1 w1 where
    f1: "follow others env k n1 (w, evs, Some (K_copy L))
       = (w1, evs @ evs1, Some (K_pace (L\<lparr>l_ok := Finite ok1, l_fail := Finite fl1\<rparr>)))"
    and copies: "filter is_copy evs1 = replicate j (CopyMessage (l_dstId L) (l_srcId L) (l_mid L))"
    and j: "j \<le> 1"
    and count1: "ok1 + fl1 = ok + fl + 1" "0 \<le> ok1" "0 \<le> fl1"
    and P1: "P w1"
    by (rule one_index [where others = others and P = P and env = env and k = k and w = w
          and evs = evs, OF rely less.prems(13) L(2,3) less.prems(11,12) small]) blast+
  from copies have copies1:
    "filter is_copy evs1 = replicate j (CopyMessage dstId srcId (Finite m))"
    by (simp add: L)
  define L1 where "L1 = L\<lparr>l_ok := Finite ok1, l_fail := Finite fl1\<rparr>"
  define w2 where "w2 = others (k + n1) w1"
  have P2: "P w2"
    using P1 rely by (simp add: w2_def)
  then have end2: "endId (heap w2 s) = Some (Finite b)"
    by (rule last)
  have next_mid: "incr (Finite m) = Finite (m + 1)"
    using less.prems(8,9) range by (simp add: to_double_exact)
  have j12: "Suc j = 1 \<or> Suc j = 2" using j by auto
  show ?case
  proof (cases "m = b")
    case True
    have f2: "follow others env (k + n1) 1 (w1, evs @ evs1, Some (K_pace L1))
        = (w2, evs @ evs1 @ [SendMessage chatId (M_done (Finite ok1) (Finite fl1))],
           Some (K_done chatId))"
      using True next_mid end2 L
      by (simp add: loop_test_def L1_def w2_def)
    have "follow others env k (n1 + 1) (w, evs, Some (K_copy L))
        = (w2, evs @ evs1 @ [SendMessage chatId (M_done (Finite ok1) (Finite fl1))],
           Some (K_done chatId))"
      unfolding follow_add f1 L1_def [symmetric] by (rule f2)
    moreover have "CopyMessage dstId srcId (Finite m) # filter is_copy evs1
        = visits dstId srcId [Suc j] [m..b]"
      using True copies1 by (simp add: visits_def)
    moreover have "ok1 + fl1 = b - a + 1"
      using count1 less.prems(10) True by simp
    ultimately show ?thesis
      using True count1 j12
      by (intro exI [of _ "n1 + 1"] exI [of _ w2] exI [of _ evs1] exI [of _ "[Suc j]"]
          exI [of _ ok1] exI [of _ fl1]) simp
  next
    case False
    with less.prems(9) have lt: "m < b" by simp
    define L2 where "L2 = L1\<lparr>l_mid := Finite (m + 1)\<rparr>"
    define evs2 where "evs2 = evs @ evs1 @ [CopyMessage dstId srcId (Finite (m + 1))]"
    have f2: "follow others env (k + n1) 1 (w1, evs @ evs1, Some (K_pace L1))
        = (w2, evs2, Some (K_copy L2))"
      using lt next_mid end2 L
      by (simp add: loop_test_def L1_def L2_def w2_def evs2_def)
    have "\<exists>n w' evs' ks ok' fl'.
      follow others env (k + n1 + 1) n (w2, evs2, Some (K_copy L2))
        = (w', evs2 @ evs' @ [SendMessage chatId (M_done (Finite ok') (Finite fl'))],
           Some (K_done chatId))
      \<and> length ks = nat (b - (m + 1) + 1) \<and> (\<forall>x \<in> set ks. x = 1 \<or> x = 2)
      \<and> CopyMessage dstId srcId (Finite (m + 1)) # filter is_copy evs'
          = visits dstId srcId ks [m + 1..b]
      \<and> ok' + fl' = b - a + 1 \<and> 0 \<le> ok' \<and> 0 \<le> fl'"
    proof (rule less.hyps)
      show "nat (b - (m + 1)) < nat (b - m)" using lt by simp
      show "l_mid L2 = Finite (m + 1)" "l_ok L2 = Finite ok1" "l_fail L2 = Finite fl1"
        "l_s L2 = s" "l_chatId L2 = chatId" "l_srcId L2 = srcId" "l_dstId L2 = dstId"
        using L by (simp_all add: L2_def L1_def)
      show "a \<le> m + 1" "m + 1 \<le> b" "ok1 + fl1 = m + 1 - a" "0 \<le> ok1" "0 \<le> fl1"
        using less.prems(8,10) lt count1 by simp_all
      show "P w2" by (rule P2)
    qed
    then obtain n3 w3 evs3 ks3 ok3 fl3 where
      f3: "follow others env (k + n1 + 1) n3 (w2, evs2, Some (K_copy L2))
        = (w3, evs2 @ evs3 @ [SendMessage chatId (M_done (Finite ok3) (Finite fl3))],
           Some (K_done chatId))"
      and ks3: "length ks3 = nat (b - (m + 1) + 1)" "\<forall>x \<in> set ks3. x = 1 \<or> x = 2"
      and copies3: "CopyMessage dstId srcId (Finite (m + 1)) # filter is_copy evs3
          = visits dstId srcId ks3 [m + 1..b]"
      and count3: "ok3 + fl3 = b - a + 1" "0 \<le> ok3" "0 \<le> fl3"
      by blast
    let ?evs = "evs1 @ [CopyMessage dstId srcId (Finite (m + 1))] @ evs3"
    have "follow others env k (n1 + 1 + n3) (w, evs, Some (K_copy L))
        = (w3, evs @ ?evs @ [SendMessage chatId (M_done (Finite ok3) (Finite fl3))],
           Some (K_done chatId))"
      using f3 unfolding follow_add f1 L1_def [symmetric] f2
      by (simp add: evs2_def)
    moreover have "CopyMessage dstId srcId (Finite m) # filter is_copy ?evs
        = visits dstId srcId (Suc j # ks3) [m..b]"
      using copies1 copies3 less.prems(9) by (simp add: visits_Cons)
    moreover have "length (Suc j # ks3) = nat (b - m + 1)"
      using ks3(1) lt by simp
    ultimately show ?thesis
      using ks3(2) count3 j12
      by (intro exI [of _ "n1 + 1 + n3"] exI [of _ w3] exI [of _ ?evs]
          exI [of _ "Suc j # ks3"] exI [of _ ok3] exI [of _ fl3]) simp
  qed
qed



text \<open>
  Claim C1, as the program has it. Take a forward loop that starts on a session object
  with the range \<open>a\<close> to \<open>b\<close>, where \<open>- 2 ^ 53 \<le> a \<le> b < 2 ^ 53\<close> and \<open>b - a < 2 ^ 53\<close>
  (the integers a JavaScript number counts exactly), whatever the other handlers do to
  the store meanwhile (they keep the range of that object, as shown above) and however
  the calls of \<open>copyMessage\<close> settle. After finitely many steps the loop has called
  \<open>copyMessage\<close> for the indices \<open>a, a + 1, ..., b\<close> in this order, each once or twice,
  and has sent the summary with counts \<open>ok\<close> and \<open>fail\<close>, \<open>ok + fail = b - a + 1\<close>; when
  that message is sent, the session of the chat is reset to a fresh one.
\<close>

theorem loop_visits_range:
  assumes rely: "\<forall>k w'. holds_range s a b w' \<longrightarrow> holds_range s a b (others k w')"
    and start: "holds_range s a b w"
    and range: "a \<le> b" "- (2 ^ 53) \<le> a" "b < 2 ^ 53" "b - a < 2 ^ 53"
    and sent: "env 0 = Resolved v"
  shows "(\<exists>n w' evs ks ok fl.
      follow others env 0 n (w, [], Some (K_starting chatId s srcId dstId))
        = (w', evs @ [SendMessage chatId (M_done (Finite ok) (Finite fl))],
           Some (K_done chatId))
      \<and> filter is_copy evs = visits dstId srcId ks [a..b]
      \<and> length ks = nat (b - a + 1) \<and> (\<forall>x \<in> set ks. x = 1 \<or> x = 2)
      \<and> ok + fl = b - a + 1 \<and> 0 \<le> ok \<and> 0 \<le> fl)
    \<and> resume w2 (K_done chatId) (Resolved v2) = (resetSession w2 chatId, [], None)
    \<and> session_of (resetSession w2 chatId) chatId
      = \<lparr>step = None, running = False, startId = None, endId = None,
         srcRef = Undefined, dstRef = Undefined\<rparr>"
proof -
  define L where "L = \<lparr>l_chatId = chatId, l_s = s, l_srcId = srcId, l_dstId = dstId,
    l_mid = Finite a, l_ok = Finite 0, l_fail = Finite 0\<rparr>"
  define w0 where "w0 = others 0 w"
  have keep: "holds_range s a b (others k w')" if "holds_range s a b w'" for k w'
    using rely that by simp
  have last: "endId (heap w' s) = Some (Finite b)" if "holds_range s a b w'" for w'
    using that by (simp add: holds_range_def)
  have w0: "holds_range s a b w0"
    using start keep by (simp add: w0_def)
  then have w0': "startId (heap w0 s) = Some (Finite a)" "endId (heap w0 s) = Some (Finite b)"
    by (simp_all add: holds_range_def)
  have enter: "follow others env 0 1 (w, [], Some (K_starting chatId s srcId dstId))
      = (w0, [CopyMessage dstId srcId (Finite a)], Some (K_copy L))"
    using sent w0' range(1) by (simp add: loop_enter_def loop_test_def L_def w0_def)
  have "\<exists>n w' evs' ks ok' fl'.
      follow others env 1 n (w0, [CopyMessage dstId srcId (Finite a)], Some (K_copy L))
        = (w', [CopyMessage dstId srcId (Finite a)] @ evs'
               @ [SendMessage chatId (M_done (Finite ok') (Finite fl'))],
           Some (K_done chatId))
      \<and> length ks = nat (b - a + 1) \<and> (\<forall>x \<in> set ks. x = 1 \<or> x = 2)
      \<and> CopyMessage dstId srcId (Finite a) # filter is_copy evs'
          = visits dstId srcId ks [a..b]
      \<and> ok' + fl' = b - a + 1 \<and> 0 \<le> ok' \<and> 0 \<le> fl'"
    using range w0
    by (intro loop_from [where P = "holds_range s a b" and s = s and a = a and ok = 0
          and fl = 0] keep last)
      (simp_all add: L_def)
  then obtain n w' evs' ks ok fl where
    run: "follow others env 1 n (w0, [CopyMessage dstId srcId (Finite a)], Some (K_copy L))
        = (w', [CopyMessage dstId srcId (Finite a)] @ evs'
               @ [SendMessage chatId (M_done (Finite ok) (Finite fl))],
           Some (K_done chatId))"
    and ks: "length ks = nat (b - a + 1)" "\<forall>x \<in> set ks. x = 1 \<or> x = 2"
    and copies: "CopyMessage dstId srcId (Finite a) # filter is_copy evs'
          = visits dstId srcId ks [a..b]"
    and count: "ok + fl = b - a + 1" "0 \<le> ok" "0 \<le> fl"
    by blast
  have "follow others env 0 (1 + n) (w, [], Some (K_starting chatId s srcId dstId))
      = (w', (CopyMessage dstId srcId (Finite a) # evs')
             @ [SendMessage chatId (M_done (Finite ok) (Finite fl))],
         Some (K_done chatId))"
    unfolding follow_add enter using run by simp
  moreover have "filter is_copy (CopyMessage dstId srcId (Finite a) # evs')
      = visits dstId srcId ks [a..b]"
    using copies by simp
  ultimately have "\<exists>n w' evs ks ok fl.
      follow others env 0 n (w, [], Some (K_starting chatId s srcId dstId))
        = (w', evs @ [SendMessage chatId (M_done (Finite ok) (Finite fl))],
           Some (K_done chatId))
      \<and> filter is_copy evs = visits dstId srcId ks [a..b]
      \<and> length ks = nat (b - a + 1) \<and> (\<forall>x \<in> set ks. x = 1 \<or> x = 2)
      \<and> ok + fl = b - a + 1 \<and> 0 \<le> ok \<and> 0 \<le> fl"
    using ks count by blast
  then show ?thesis
    by (simp add: session_of_reset fresh_session_def)
qed

lemma cancel_each_eq: "cancel_each k w = resetSession w 7"
proof -
  have "cmd_match ''cancel'' (js ''/cancel'')" by (simp add: text_defs pat_defs)
  then show ?thesis by (simp add: cancel_each_def deliver_cancel)
qed

theorem loop_visits_range_witness:
  "holds_range 0 5 7 (store looping)
   \<and> (\<exists>n w' evs ks ok fl.
      follow cancel_each limited_at_6 0 n
          (store looping, [], Some (K_starting 7 0 (Finite (- 1001)) (Finite (- 1002))))
        = (w', evs @ [SendMessage 7 (M_done (Finite ok) (Finite fl))], Some (K_done 7))
      \<and> filter is_copy evs = visits (Finite (- 1002)) (Finite (- 1001)) ks [5..7]
      \<and> length ks = 3 \<and> (\<forall>x \<in> set ks. x = 1 \<or> x = 2)
      \<and> ok + fl = 3 \<and> 0 \<le> ok \<and> 0 \<le> fl)
   \<and> snd (follow cancel_each limited_at_6 0 9
          (store looping, [], Some (K_starting 7 0 (Finite (- 1001)) (Finite (- 1002)))))
        = ([CopyMessage (Finite (- 1002)) (Finite (- 1001)) (Finite 5), Sleep BASE_DELAY,
            CopyMessage (Finite (- 1002)) (Finite (- 1001)) (Finite 6),
            Log (Flood_control (Finite 6) 4), Sleep (Seconds 4),
            CopyMessage (Finite (- 1002)) (Finite (- 1001)) (Finite 6), Sleep BASE_DELAY,
            CopyMessage (Finite (- 1002)) (Finite (- 1001)) (Finite 7), Sleep BASE_DELAY,
            SendMessage 7 (M_done (Finite 3) (Finite 0))],
           Some (K_done 7))
   \<and> resume (store looping) (K_done 7) (Resolved (Finite 0))
        = (resetSession (store looping) 7, [], None)
   \<and> session_of (resetSession (store looping) 7) 7
        = \<lparr>step = None, running = False, startId = None, endId = None,
           srcRef = Undefined, dstRef = Undefined\<rparr>"
proof -
  have h: "holds_range 0 5 7 (store looping)"
    by (simp add: holds_range_def looping_eq)
  have r: "\<forall>k w'. holds_range 0 5 7 w' \<longrightarrow> holds_range 0 5 7 (cancel_each k w')"
    by (simp add: cancel_each_def deliver_keeps)
  have e: "limited_at_6 0 = Resolved (Finite 0)" by (simp add: limited_at_6_def)
  have f: "flood_wait too_many = Some 4"
    by (simp add: flood_wait_def error_status_def retryAfter_def too_many_def)
  have run: "snd (follow cancel_each limited_at_6 0 9
          (store looping, [], Some (K_starting 7 0 (Finite (- 1001)) (Finite (- 1002)))))
        = ([CopyMessage (Finite (- 1002)) (Finite (- 1001)) (Finite 5), Sleep BASE_DELAY,
            CopyMessage (Finite (- 1002)) (Finite (- 1001)) (Finite 6),
            Log (Flood_control (Finite 6) 4), Sleep (Seconds 4),
            CopyMessage (Finite (- 1002)) (Finite (- 1001)) (Finite 6), Sleep BASE_DELAY,
            CopyMessage (Finite (- 1002)) (Finite (- 1001)) (Finite 7), Sleep BASE_DELAY,
            SendMessage 7 (M_done (Finite 3) (Finite 0))],
           Some (K_done 7))"
    by (simp add: eval_nat_numeral loop_enter_def loop_test_def cancel_each_eq limited_at_6_def
        f to_double_exact looping_eq resetSession_def new_session_def)
  from loop_visits_range [where others = cancel_each and s = 0 and w = "store looping"
      and a = 5 and b = 7 and env = limited_at_6 and v = "Finite 0"
      and chatId = 7 and srcId = "Finite (- 1001)" and dstId = "Finite (- 1002)"
      and ?w2.0 = "store looping" and ?v2.0 = "Finite 0", OF r h _ _ _ _ e] run h
  show ?thesis by simp
qed

text \<open>
  Beyond \<open>2 ^ 53\<close> the loop does not advance: in the run \<open>beyond_53\<close>, over the range
  from \<open>9007199254740992\<close> to \<open>9007199254740992\<close>, \<open>mid++\<close> leaves \<open>mid\<close> as it is; the one
  index is copied a third time after two successes, and no summary is in sight.
\<close>

theorem stuck_beyond_53:
  "calls beyond_53 =
     [SendMessage 7 (M_range_set (Finite 9007199254740992) (Finite 9007199254740992)),
      SendMessage 7 M_source_received,
      SendMessage 7 (M_starting (Finite (- 1001)) (Finite (- 1002))
         (Some (Finite 9007199254740992)) (Some (Finite 9007199254740992))),
      CopyMessage (Finite (- 1002)) (Finite (- 1001)) (Finite 9007199254740992),
      Sleep BASE_DELAY,
      CopyMessage (Finite (- 1002)) (Finite (- 1001)) (Finite 9007199254740992),
      Sleep BASE_DELAY,
      CopyMessage (Finite (- 1002)) (Finite (- 1001)) (Finite 9007199254740992)]
   \<and> suspended beyond_53 =
     [K_copy \<lparr>l_chatId = 7, l_s = 0, l_srcId = Finite (- 1001), l_dstId = Finite (- 1002),
        l_mid = Finite 9007199254740992, l_ok = Finite 2, l_fail = Finite 0\<rparr>]"
  unfolding beyond_53_def by (simp add: all_defs)



end
